theory Spec2Isabelle
  imports Main
begin

section \<open>The management server as the two scripts see it\<close>

text \<open>
  Both scripts talk to a vCenter server through pyVmomi. The model keeps what the
  scripts read and what they submit:
  \<^item> a virtual machine is a record of the fields the code reads (\<open>vm.name\<close>,
    \<open>vm.runtime.powerState\<close>, \<open>vm.config.hardware.device\<close> and the two notification
    fields of \<open>vm.config\<close>);
  \<^item> a VM object held by the script is a reference into the server's inventory (its
    position in the container view), so every read sees the current state; the
    scripts get their references from \<open>get_vm_by_name\<close> only;
  \<^item> a task is described by the number of polls during which it is still running and
    by the terminal state it then keeps for ever (\<open>Hangs\<close> never leaves
    \<open>running\<close>);
  \<^item> the server's answer to the n-th submitted request is a parameter of the world
    (\<open>platform\<close>): it either raises or returns a task, so a statement about every
    world is a statement about every behaviour of the server;
  \<^item> a task that reaches \<open>success\<close> changes the inventory (\<open>effect\<close>) at the poll
    that first sees it; a task still running when the script stops polling is not
    followed further;
  \<^item> \<open>time.time()\<close> reads a simulated clock, in seconds, that only \<open>time.sleep\<close>
    advances;
  \<^item> everything observable (requests, polls of \<open>task.info.state\<close>, sleeps, printed
    lines) is appended to a trace, oldest first.
  Reads of the inventory, of a VM's properties (its \<open>config\<close> is present) and of a
  task's state are taken not to raise; submitting a request may raise.
\<close>

datatype power_state = poweredOn | poweredOff | suspended

text \<open>An entry of \<open>vm.config.hardware.device\<close>: its class, \<open>key\<close> and
  \<open>deviceInfo.label\<close>.\<close>

datatype device =
    VirtualPrecisionClock (key: int) (label: string)
  | VirtualDevice (key: int) (label: string)

record vm =
  name :: string
  powerState :: power_state
  devices :: "device list"
  vmOpNotificationToAppEnabled :: "bool option"
  vmOpNotificationTimeout :: "int option"

text \<open>\<open>vim.vm.device.VirtualDeviceSpec\<close> and \<open>vim.vm.ConfigSpec\<close>; a field the
  script leaves unset is \<open>None\<close> (for \<open>deviceChange\<close>: the empty list).\<close>

datatype device_operation = OpAdd | OpRemove

record device_spec =
  operation :: device_operation
  device :: device

record config_spec =
  deviceChange :: "device_spec list"
  spec_vmOpNotificationToAppEnabled :: "bool option"
  spec_vmOpNotificationTimeout :: "int option"

definition ConfigSpec :: config_spec where
  "ConfigSpec = \<lparr>deviceChange = [], spec_vmOpNotificationToAppEnabled = None,
     spec_vmOpNotificationTimeout = None\<rparr>"

text \<open>The three task requests the scripts submit, on a VM reference.\<close>

datatype request =
    PowerOffVM_Task nat
  | PowerOnVM_Task nat
  | ReconfigVM_Task nat config_spec

datatype task_state = State_queued | State_running | State_success | State_error

datatype task_end = Succeeds | Errors string

datatype task_behaviour = Finishes nat task_end | Hangs

datatype response = Raises string | Returns task_behaviour

record task =
  behaviour :: task_behaviour
  request_of :: request

text \<open>A printed line is kept as the format string of the \<open>print\<close> statement
  and the values interpolated into it.\<close>

datatype pyval = StrV string | IntV int | BoolV bool | PowerV power_state | NoneV

datatype event =
    Call request
  | Poll task_state
  | Sleep int
  | Print string "pyval list"

record world =
  inventory :: "vm list"
  clock :: int
  platform :: "nat \<Rightarrow> response"
  submitted :: nat
  trace :: "event list"

definition emit :: "event \<Rightarrow> world \<Rightarrow> world" where
  "emit e w = w\<lparr>trace := trace w @ [e]\<rparr>"

definition print :: "string \<Rightarrow> pyval list \<Rightarrow> world \<Rightarrow> world" where
  "print f vs w = emit (Print f vs) w"

definition sleep :: "int \<Rightarrow> world \<Rightarrow> world" where
  "sleep d w = emit (Sleep d) (w\<lparr>clock := clock w + d\<rparr>)"

subsection \<open>What a completed task does to the inventory\<close>

fun is_ptp :: "device \<Rightarrow> bool" where
  "is_ptp (VirtualPrecisionClock k l) = True"
| "is_ptp (VirtualDevice k l) = False"

definition fresh_key :: "device list \<Rightarrow> int" where
  "fresh_key ds = fold max (map key ds) 0 + 1"

text \<open>A device added with a negative key gets a key of the server's choice; a removal
  takes out the device with the key given.\<close>

fun apply_device_change :: "device_spec \<Rightarrow> device list \<Rightarrow> device list" where
  "apply_device_change c ds =
     (case operation c of
        OpAdd \<Rightarrow>
          (case device c of
             VirtualPrecisionClock k l \<Rightarrow>
               ds @ [VirtualPrecisionClock (if k < 0 then fresh_key ds else k) l]
           | VirtualDevice k l \<Rightarrow>
               ds @ [VirtualDevice (if k < 0 then fresh_key ds else k) l])
      | OpRemove \<Rightarrow> filter (\<lambda>d. key d \<noteq> key (device c)) ds)"

definition apply_spec :: "config_spec \<Rightarrow> vm \<Rightarrow> vm" where
  "apply_spec s v =
     v\<lparr>devices := fold apply_device_change (deviceChange s) (devices v),
       vmOpNotificationToAppEnabled :=
         (case spec_vmOpNotificationToAppEnabled s of
            None \<Rightarrow> vmOpNotificationToAppEnabled v | Some b \<Rightarrow> Some b),
       vmOpNotificationTimeout :=
         (case spec_vmOpNotificationTimeout s of
            None \<Rightarrow> vmOpNotificationTimeout v | Some t \<Rightarrow> Some t)\<rparr>"

fun effect :: "request \<Rightarrow> vm list \<Rightarrow> vm list" where
  "effect (PowerOffVM_Task r) vs = vs[r := (vs ! r)\<lparr>powerState := poweredOff\<rparr>]"
| "effect (PowerOnVM_Task r) vs = vs[r := (vs ! r)\<lparr>powerState := poweredOn\<rparr>]"
| "effect (ReconfigVM_Task r s) vs = vs[r := apply_spec s (vs ! r)]"

declare effect.simps [simp del]

text \<open>Submitting a request: the call is recorded, and the server's answer to it is
  the next one of \<open>platform\<close>.\<close>

definition submit :: "request \<Rightarrow> world \<Rightarrow> (string + task) \<times> world" where
  "submit q w =
     (let w1 = emit (Call q) (w\<lparr>submitted := Suc (submitted w)\<rparr>)
      in case platform w (submitted w) of
           Raises e \<Rightarrow> (Inl e, w1)
         | Returns b \<Rightarrow> (Inr \<lparr>behaviour = b, request_of = q\<rparr>, w1))"

fun state_at :: "task_behaviour \<Rightarrow> nat \<Rightarrow> task_state" where
  "state_at (Finishes n e) i =
     (if i < n then State_running
      else case e of Succeeds \<Rightarrow> State_success | Errors m \<Rightarrow> State_error)"
| "state_at Hangs i = State_running"

fun error_of :: "task_behaviour \<Rightarrow> string" where
  "error_of (Finishes n (Errors m)) = m"
| "error_of b = []"

text \<open>One read of \<open>task.info.state\<close>, the i-th of this task. The task's effect becomes
  visible with the read that first sees \<open>success\<close>.\<close>

definition read_state :: "task \<Rightarrow> nat \<Rightarrow> world \<Rightarrow> task_state \<times> world" where
  "read_state t i w =
     (let s = state_at (behaviour t) i;
          w1 = (if behaviour t = Finishes i Succeeds
                then w\<lparr>inventory := effect (request_of t) (inventory w)\<rparr> else w)
      in (s, emit (Poll s) w1))"

section \<open>add\_ptp\_to\_vm.py\<close>

text \<open>\<open>get_vm_by_name\<close>: the first VM of the view with that name.\<close>

fun find_vm :: "string \<Rightarrow> vm list \<Rightarrow> nat option" where
  "find_vm n [] = None"
| "find_vm n (v # vs) = (if name v = n then Some 0 else map_option Suc (find_vm n vs))"

definition get_vm_by_name :: "string \<Rightarrow> world \<Rightarrow> nat option" where
  "get_vm_by_name vm_name w = find_vm vm_name (inventory w)"

text \<open>\<open>wait_for_task\<close>: the polling loop, then the second read of the terminal
  state (a terminal state is final, so it is the state the loop saw).\<close>

function wait_loop :: "task \<Rightarrow> int \<Rightarrow> int \<Rightarrow> nat \<Rightarrow> world \<Rightarrow> bool \<times> world" where
  "wait_loop t timeout start_time i w =
     (case read_state t i w of
        (s, w1) \<Rightarrow>
          if s \<noteq> State_success \<and> s \<noteq> State_error then
            (if clock w1 - start_time > timeout
             then (False, print ''Task timed out after {timeout} seconds'' [IntV timeout] w1)
             else wait_loop t timeout start_time (Suc i) (sleep 1 w1))
          else
            (let w2 = emit (Poll s) w1
             in if s = State_success then (True, w2)
                else (False, print ''Task failed: {task.info.error}''
                               [StrV (error_of (behaviour t))] w2)))"
  by pat_completeness auto
termination
  by (relation "measure (\<lambda>(t, timeout, start_time, i, w). nat (timeout + 1 - (clock w - start_time)))")
     (auto simp: read_state_def sleep_def emit_def Let_def split: if_splits)

declare wait_loop.simps [simp del]

definition wait_for_task :: "task \<Rightarrow> int \<Rightarrow> world \<Rightarrow> bool \<times> world" where
  "wait_for_task t timeout w = wait_loop t timeout (clock w) 0 w"

definition vm_name_of :: "nat \<Rightarrow> world \<Rightarrow> string" where
  "vm_name_of r w = name (inventory w ! r)"

definition power_off_vm :: "nat \<Rightarrow> world \<Rightarrow> bool \<times> world" where
  "power_off_vm r w =
     (let w1 = print ''  Powering off VM: {vm.name}...'' [StrV (vm_name_of r w)] w
      in case submit (PowerOffVM_Task r) w1 of
           (Inl e, w2) \<Rightarrow> (False, print ''  Error powering off VM: {str(e)}'' [StrV e] w2)
         | (Inr t, w2) \<Rightarrow>
             (case wait_for_task t 300 w2 of
                (ok, w3) \<Rightarrow>
                  if ok
                  then (True, print ''  VM {vm.name} powered off successfully''
                                [StrV (vm_name_of r w3)] w3)
                  else (False, w3)))"

definition power_on_vm :: "nat \<Rightarrow> world \<Rightarrow> bool \<times> world" where
  "power_on_vm r w =
     (let w1 = print ''  Powering on VM: {vm.name}...'' [StrV (vm_name_of r w)] w
      in case submit (PowerOnVM_Task r) w1 of
           (Inl e, w2) \<Rightarrow> (False, print ''  Error powering on VM: {str(e)}'' [StrV e] w2)
         | (Inr t, w2) \<Rightarrow>
             (case wait_for_task t 300 w2 of
                (ok, w3) \<Rightarrow>
                  if ok
                  then (True, print ''  VM {vm.name} powered on successfully''
                                [StrV (vm_name_of r w3)] w3)
                  else (False, w3)))"

text \<open>The request \<open>add_ptp_device\<close> builds: one device change, adding a precision
  clock with key -1 (no label of its own).\<close>

definition add_spec :: config_spec where
  "add_spec =
     ConfigSpec\<lparr>deviceChange :=
       [\<lparr>operation = OpAdd, device = VirtualPrecisionClock (- 1) []\<rparr>]\<rparr>"

definition add_ptp_device :: "nat \<Rightarrow> world \<Rightarrow> bool \<times> world" where
  "add_ptp_device r w =
     (let w1 = print ''  Adding PTP device to VM: {vm.name}...'' [StrV (vm_name_of r w)] w
      in case submit (ReconfigVM_Task r add_spec) w1 of
           (Inl e, w2) \<Rightarrow> (False, print ''  Error adding PTP device: {str(e)}'' [StrV e] w2)
         | (Inr t, w2) \<Rightarrow>
             (case wait_for_task t 300 w2 of
                (ok, w3) \<Rightarrow>
                  if ok
                  then (True, print ''  PTP device added successfully to {vm.name}''
                                [StrV (vm_name_of r w3)] w3)
                  else (False, print ''  Failed to add PTP device to {vm.name}''
                                 [StrV (vm_name_of r w3)] w3)))"

fun has_ptp :: "device list \<Rightarrow> bool" where
  "has_ptp [] = False"
| "has_ptp (d # ds) = (if is_ptp d then True else has_ptp ds)"

definition has_ptp_device :: "nat \<Rightarrow> world \<Rightarrow> bool" where
  "has_ptp_device r w = has_ptp (devices (inventory w ! r))"

fun get_ptp :: "device list \<Rightarrow> device option" where
  "get_ptp [] = None"
| "get_ptp (d # ds) = (if is_ptp d then Some d else get_ptp ds)"

definition get_ptp_device :: "nat \<Rightarrow> world \<Rightarrow> device option" where
  "get_ptp_device r w = get_ptp (devices (inventory w ! r))"

definition remove_spec :: "device \<Rightarrow> config_spec" where
  "remove_spec d = ConfigSpec\<lparr>deviceChange := [\<lparr>operation = OpRemove, device = d\<rparr>]\<rparr>"

definition remove_ptp_device :: "nat \<Rightarrow> world \<Rightarrow> bool \<times> world" where
  "remove_ptp_device r w =
     (let w1 = print ''  Removing PTP device from VM: {vm.name}...'' [StrV (vm_name_of r w)] w
      in case get_ptp_device r w1 of
           None \<Rightarrow> (False, print ''  No PTP device found on {vm.name}'' [StrV (vm_name_of r w1)] w1)
         | Some ptp_device \<Rightarrow>
             (case submit (ReconfigVM_Task r (remove_spec ptp_device)) w1 of
                (Inl e, w2) \<Rightarrow>
                  (False, print ''  Error removing PTP device: {str(e)}'' [StrV e] w2)
              | (Inr t, w2) \<Rightarrow>
                  (case wait_for_task t 300 w2 of
                     (ok, w3) \<Rightarrow>
                       if ok
                       then (True, print ''  PTP device removed successfully from {vm.name}''
                                     [StrV (vm_name_of r w3)] w3)
                       else (False, print ''  Failed to remove PTP device from {vm.name}''
                                      [StrV (vm_name_of r w3)] w3))))"

text \<open>\<open>process_vm\<close> returns True, False or None (skipped): \<open>Some True\<close>,
  \<open>Some False\<close>, \<open>None\<close>. Its three branches are \<open>process_read\<close>,
  \<open>process_enable\<close> and \<open>process_disable\<close>; \<open>enable_edit\<close> and
  \<open>disable_edit\<close> are what follows the power-off in each (the edit, then the
  power-on), with \<open>was_powered_on\<close> as the code has set it by then. In
  \<open>process_read\<close> the second lookup of the device reads the list \<open>has_ptp_device\<close>
  has just read, so it finds the device.\<close>

definition enable_edit :: "string \<Rightarrow> nat \<Rightarrow> bool \<Rightarrow> world \<Rightarrow> bool option \<times> world" where
  "enable_edit vm_name r was_powered_on w =
     (case add_ptp_device r w of
        (success, w1) \<Rightarrow>
          if was_powered_on \<and> success
          then (case power_on_vm r (sleep 2 w1) of
                  (ok, w2) \<Rightarrow>
                    if \<not> ok
                    then (Some False,
                          print ''  WARNING: Failed to power on VM {vm_name}'' [StrV vm_name] w2)
                    else (Some success, w2))
          else (Some success, w1))"

definition process_enable :: "string \<Rightarrow> nat \<Rightarrow> world \<Rightarrow> bool option \<times> world" where
  "process_enable vm_name r w =
     (if has_ptp_device r w
      then (None, print ''  VM {vm_name} already has a PTP device. Skipping.'' [StrV vm_name] w)
      else
        (let power_state = powerState (inventory w ! r);
             w1 = print ''  Current power state: {power_state}'' [PowerV power_state] w
         in if power_state = poweredOn
            then (case power_off_vm r w1 of
                    (ok, w2) \<Rightarrow>
                      if \<not> ok then (Some False, w2)
                      else enable_edit vm_name r True (sleep 2 w2))
            else enable_edit vm_name r False w1))"

definition disable_edit :: "string \<Rightarrow> nat \<Rightarrow> bool \<Rightarrow> world \<Rightarrow> bool option \<times> world" where
  "disable_edit vm_name r was_powered_on w =
     (case remove_ptp_device r w of
        (success, w1) \<Rightarrow>
          if was_powered_on \<and> success
          then (case power_on_vm r (sleep 2 w1) of
                  (ok, w2) \<Rightarrow>
                    if \<not> ok
                    then (Some False,
                          print ''  WARNING: Failed to power on VM {vm_name}'' [StrV vm_name] w2)
                    else (Some success, w2))
          else (Some success, w1))"

definition process_disable :: "string \<Rightarrow> nat \<Rightarrow> world \<Rightarrow> bool option \<times> world" where
  "process_disable vm_name r w =
     (if \<not> has_ptp_device r w
      then (None, print ''  VM {vm_name} does not have a PTP device. Skipping.''
                    [StrV vm_name] w)
      else
        (let power_state = powerState (inventory w ! r);
             w1 = print ''  Current power state: {power_state}'' [PowerV power_state] w
         in if power_state = poweredOn
            then (case power_off_vm r w1 of
                    (ok, w2) \<Rightarrow>
                      if \<not> ok then (Some False, w2)
                      else disable_edit vm_name r True (sleep 2 w2))
            else disable_edit vm_name r False w1))"

definition process_read :: "nat \<Rightarrow> world \<Rightarrow> bool option \<times> world" where
  "process_read r w =
     (let has_ptp = has_ptp_device r w;
          w1 = print ''  PTP Device Status: {'Present' if has_ptp else 'Not Present'}''
                 [StrV (if has_ptp then ''Present'' else ''Not Present'')] w
      in if has_ptp
         then (case get_ptp_device r w1 of
                 Some ptp_device \<Rightarrow>
                   (Some True,
                    print ''  PTP Device Label: {ptp_device.deviceInfo.label}''
                      [StrV (label ptp_device)]
                      (print ''  PTP Device Key: {ptp_device.key}'' [IntV (key ptp_device)] w1))
               | None \<Rightarrow> (Some True, w1))
         else (Some True, w1))"

definition process_vm :: "string \<Rightarrow> string \<Rightarrow> world \<Rightarrow> bool option \<times> world" where
  "process_vm vm_name action w =
     (let w0 = print ''Processing VM: {vm_name}'' [StrV vm_name] w
      in case get_vm_by_name vm_name w0 of
           None \<Rightarrow> (Some False, print ''  ERROR: VM '{vm_name}' not found'' [StrV vm_name] w0)
         | Some r \<Rightarrow>
             if action = ''read'' then process_read r w0
             else if action = ''enable'' then process_enable vm_name r w0
             else if action = ''disable'' then process_disable vm_name r w0
             else (Some False, w0))"

text \<open>\<open>main\<close>, from the connection on. The parsed arguments are a record (the list
  of names is \<open>args.vms\<close> already split at commas and stripped); \<open>connect_ok\<close> says
  whether the connection succeeds and \<open>confirm\<close> is the stripped, lower-case answer to
  the confirmation prompt. The result is the exit code, the buckets when the run got
  as far as creating them, and the world. Of the banner and summary lines only the
  ones below are kept.\<close>

record args =
  arg_read :: bool
  arg_enable :: bool
  arg_disable :: bool
  arg_timeout :: "int option"
  arg_vms :: "string list"
  arg_no_confirm :: bool
  arg_dry_run :: bool

record results =
  r_success :: "string list"
  r_failed :: "string list"
  r_skipped :: "string list"


fun process_all :: "nat list \<Rightarrow> string \<Rightarrow> results \<Rightarrow> world \<Rightarrow> results \<times> world" where
  "process_all [] action res w = (res, w)"
| "process_all (r # rs) action res w =
     (case process_vm (vm_name_of r w) action w of
        (result, w1) \<Rightarrow>
          process_all rs action
            (if result = Some True
             then res\<lparr>r_success := r_success res @ [vm_name_of r w1]\<rparr>
             else if result = None
             then res\<lparr>r_skipped := r_skipped res @ [vm_name_of r w1]\<rparr>
             else res\<lparr>r_failed := r_failed res @ [vm_name_of r w1]\<rparr>)
            w1)"


section \<open>add\_vmotion\_notification\_to\_vm.py\<close>


text \<open>The spec \<open>set_vm_notification_settings\<close> builds from its two optional
  arguments.\<close>

definition notification_spec :: "int option \<Rightarrow> bool option \<Rightarrow> config_spec" where
  "notification_spec timeout enabled =
     (let spec = ConfigSpec;
          spec = (case enabled of
                    None \<Rightarrow> spec
                  | Some e \<Rightarrow> spec\<lparr>spec_vmOpNotificationToAppEnabled := Some e\<rparr>);
          spec = (case timeout of
                    None \<Rightarrow> spec
                  | Some t \<Rightarrow> spec\<lparr>spec_vmOpNotificationTimeout := Some t\<rparr>)
      in spec)"

text \<open>The loop \<open>while task.info.state not in [success, error]: pass\<close>. It has no
  bound, so it is a partial function: \<open>None\<close> is a loop that never ends.\<close>

partial_function (option) busy_wait :: "task \<Rightarrow> nat \<Rightarrow> world \<Rightarrow> (task_state \<times> world) option" where
  "busy_wait t i w =
     (case read_state t i w of
        (s, w1) \<Rightarrow>
          if s \<noteq> State_success \<and> s \<noteq> State_error then busy_wait t (Suc i) w1
          else Some (s, w1))"

definition set_vm_notification_settings ::
  "nat \<Rightarrow> int option \<Rightarrow> bool option \<Rightarrow> world \<Rightarrow> (bool \<times> world) option" where
  "set_vm_notification_settings r timeout enabled w =
     (case submit (ReconfigVM_Task r (notification_spec timeout enabled)) w of
        (Inl e, w1) \<Rightarrow>
          Some (False, print ''Error: Failed to reconfigure VM: {str(e)}'' [StrV e] w1)
      | (Inr t, w1) \<Rightarrow>
          (case busy_wait t 0 w1 of
             None \<Rightarrow> None
           | Some (s, w2) \<Rightarrow>
               (let w3 = emit (Poll s) w2
                in if s = State_success then Some (True, w3)
                   else Some (False,
                          print ''Error: Task failed with error: {task.info.error.msg}''
                            [StrV (error_of (behaviour t))] w3))))"






section \<open>Notions the properties are stated with\<close>

text \<open>The requests of a trace, in order.\<close>

definition calls :: "event list \<Rightarrow> request list" where
  "calls tr = concat (map (\<lambda>e. case e of Call q \<Rightarrow> [q] | _ \<Rightarrow> []) tr)"

text \<open>\<open>completes timeout resp\<close>: the answer \<open>resp\<close> to a request is a task that
  \<open>wait_for_task\<close> sees succeed: it reaches \<open>success\<close> at a poll the loop gets to
  (poll 0, or a poll no later than \<open>timeout + 1\<close> seconds after the start).\<close>

definition completes :: "int \<Rightarrow> response \<Rightarrow> bool" where
  "completes timeout resp =
     (case resp of
        Raises e \<Rightarrow> False
      | Returns b \<Rightarrow>
          (case b of
             Hangs \<Rightarrow> False
           | Finishes n e \<Rightarrow> e = Succeeds \<and> (n = 0 \<or> int n \<le> timeout + 1)))"

text \<open>\<open>after w qs vs0 w'\<close>: from \<open>w\<close> to \<open>w'\<close> exactly the requests \<open>qs\<close> were
  submitted, in this order, and the inventory is now \<open>vs0\<close>.\<close>

definition after :: "world \<Rightarrow> request list \<Rightarrow> vm list \<Rightarrow> world \<Rightarrow> bool" where
  "after w qs vs0 w' \<longleftrightarrow>
     platform w' = platform w \<and> submitted w' = submitted w + length qs \<and>
     calls (trace w') = calls (trace w) @ qs \<and> inventory w' = vs0"




text \<open>The number of precision-clock devices in a device list.\<close>

definition ptp_count :: "device list \<Rightarrow> nat" where
  "ptp_count ds = length (filter is_ptp ds)"

text \<open>A trace spins when a poll that saw the task unfinished is directly followed by the
  next poll, with no sleep between the two.\<close>

fun spins :: "event list \<Rightarrow> bool" where
  "spins (Poll s # Poll s' # es) =
     ((s \<noteq> State_success \<and> s \<noteq> State_error) \<or> spins (Poll s' # es))"
| "spins (e # es) = spins es"
| "spins [] = False"

text \<open>A small inventory to run the scripts on: \<open>A\<close> is powered on and has no
  precision clock, \<open>C\<close> is powered off and has one.\<close>

definition vm_A :: vm where
  "vm_A = \<lparr>name = ''A'', powerState = poweredOn,
     devices = [VirtualDevice 2000 ''Hard disk 1''],
     vmOpNotificationToAppEnabled = None, vmOpNotificationTimeout = Some 600\<rparr>"

definition vm_C :: vm where
  "vm_C = \<lparr>name = ''C'', powerState = poweredOff,
     devices = [VirtualDevice 2000 ''Hard disk 1'', VirtualPrecisionClock 19000 ''Precision Clock 1''],
     vmOpNotificationToAppEnabled = Some False, vmOpNotificationTimeout = None\<rparr>"

definition world_of :: "(nat \<Rightarrow> response) \<Rightarrow> world" where
  "world_of p = \<lparr>inventory = [vm_A, vm_C], clock = 0, platform = p, submitted = 0, trace = []\<rparr>"



text \<open>The arguments of a run over the names A, B and C, without the confirmation
  prompt: the three action flags and the timeout are left open.\<close>

definition batch_args :: "bool \<Rightarrow> bool \<Rightarrow> bool \<Rightarrow> int option \<Rightarrow> args" where
  "batch_args rd en dis t =
     \<lparr>arg_read = rd, arg_enable = en, arg_disable = dis, arg_timeout = t,
      arg_vms = [''A'', ''B'', ''C''], arg_no_confirm = True, arg_dry_run = False\<rparr>"

section \<open>Reading and writing the world\<close>

lemma emit_fields [simp]:
  "inventory (emit e w) = inventory w" "clock (emit e w) = clock w"
  "platform (emit e w) = platform w" "submitted (emit e w) = submitted w"
  "trace (emit e w) = trace w @ [e]"
  by (simp_all add: emit_def)

lemma print_fields [simp]:
  "inventory (print f vs w) = inventory w" "clock (print f vs w) = clock w"
  "platform (print f vs w) = platform w" "submitted (print f vs w) = submitted w"
  "trace (print f vs w) = trace w @ [Print f vs]"
  by (simp_all add: print_def)

lemma sleep_fields [simp]:
  "inventory (sleep d w) = inventory w" "clock (sleep d w) = clock w + d"
  "platform (sleep d w) = platform w" "submitted (sleep d w) = submitted w"
  "trace (sleep d w) = trace w @ [Sleep d]"
  by (simp_all add: sleep_def)

lemma calls_simps [simp]:
  "calls [] = []" "calls (xs @ ys) = calls xs @ calls ys"
  "calls (Call q # xs) = q # calls xs" "calls (Poll s # xs) = calls xs"
  "calls (Sleep d # xs) = calls xs" "calls (Print f vs # xs) = calls xs"
  by (simp_all add: calls_def)

lemma read_state_fields [simp]:
  "fst (read_state t i w) = state_at (behaviour t) i"
  "clock (snd (read_state t i w)) = clock w"
  "platform (snd (read_state t i w)) = platform w"
  "submitted (snd (read_state t i w)) = submitted w"
  "trace (snd (read_state t i w)) = trace w @ [Poll (state_at (behaviour t) i)]"
  "inventory (snd (read_state t i w)) =
     (if behaviour t = Finishes i Succeeds then effect (request_of t) (inventory w)
      else inventory w)"
  by (simp_all add: read_state_def Let_def)

lemma wait_loop_unfold:
  "wait_loop t timeout st i w =
     (let s = state_at (behaviour t) i; w1 = snd (read_state t i w)
      in if s \<noteq> State_success \<and> s \<noteq> State_error then
            (if clock w - st > timeout
             then (False, print ''Task timed out after {timeout} seconds'' [IntV timeout] w1)
             else wait_loop t timeout st (Suc i) (sleep 1 w1))
          else
            (let w2 = emit (Poll s) w1
             in if s = State_success then (True, w2)
                else (False, print ''Task failed: {task.info.error}''
                               [StrV (error_of (behaviour t))] w2)))"
proof -
  obtain s w1 where rs: "read_state t i w = (s, w1)" by (cases "read_state t i w")
  have s: "s = state_at (behaviour t) i" using rs read_state_fields(1)[of t i w] by simp
  have c: "clock w1 = clock w" using rs read_state_fields(2)[of t i w] by simp
  show ?thesis by (subst wait_loop.simps) (simp add: rs c Let_def flip: s)
qed


lemma wait_loop_frame:
  "platform (snd (wait_loop t timeout st i w)) = platform w \<and>
   submitted (snd (wait_loop t timeout st i w)) = submitted w \<and>
   calls (trace (snd (wait_loop t timeout st i w))) = calls (trace w)"
proof (induction t timeout st i w rule: wait_loop.induct)
  case (1 t timeout st i w)
  note IH = 1 [OF prod.collapse]
  show ?case
  proof (cases "state_at (behaviour t) i \<noteq> State_success \<and> state_at (behaviour t) i \<noteq> State_error")
    case False
    then show ?thesis
      by (subst (1 2 3) wait_loop_unfold) (auto simp add: Let_def)
  next
    case run: True
    show ?thesis
    proof (cases "clock w - st > timeout")
      case True
      with run show ?thesis
        by (subst (1 2 3) wait_loop_unfold) (simp add: Let_def)
    next
      case False
      with run IH have "platform (snd (wait_loop t timeout st (Suc i) (sleep 1 (snd (read_state t i w))))) = platform w \<and>
   submitted (snd (wait_loop t timeout st (Suc i) (sleep 1 (snd (read_state t i w))))) = submitted w \<and>
   calls (trace (snd (wait_loop t timeout st (Suc i) (sleep 1 (snd (read_state t i w)))))) = calls (trace w)"
        by simp
      with run False show ?thesis
        by (subst (1 2 3) wait_loop_unfold) (simp add: Let_def)
    qed
  qed
qed


lemma wait_loop_result:
  "behaviour t = Finishes n e \<Longrightarrow> i \<le> n \<Longrightarrow>
   fst (wait_loop t timeout st i w) =
     (e = Succeeds \<and> (n = i \<or> clock w - st + int (n - Suc i) \<le> timeout))"
proof (induction t timeout st i w rule: wait_loop.induct)
  case (1 t timeout st i w)
  note IH = 1(1) [OF prod.collapse]
  show ?case
  proof (cases "i = n")
    case True
    with 1(2) show ?thesis
      by (subst wait_loop_unfold) (cases e; simp add: Let_def)
  next
    case False
    with 1(3) have lt: "i < n" by simp
    show ?thesis
    proof (cases "clock w - st > timeout")
      case True
      with lt 1(2) show ?thesis
        by (subst wait_loop_unfold) (simp add: Let_def)
    next
      case nt: False
      have "fst (wait_loop t timeout st (Suc i) (sleep 1 (snd (read_state t i w)))) =
            (e = Succeeds \<and> (n = Suc i \<or> clock (sleep 1 (snd (read_state t i w))) - st + int (n - Suc (Suc i)) \<le> timeout))"
        using IH lt nt 1(2) by simp
      with lt nt 1(2) show ?thesis
        by (subst wait_loop_unfold) (auto simp add: Let_def)
    qed
  qed
qed

lemma wait_loop_Hangs:
  "behaviour t = Hangs \<Longrightarrow> fst (wait_loop t timeout st i w) = False"
proof (induction t timeout st i w rule: wait_loop.induct)
  case (1 t timeout st i w)
  show ?case
    using 1(1) [OF prod.collapse] 1(2)
    by (subst wait_loop_unfold) (simp add: Let_def)
qed

lemma wait_loop_inventory:
  "(\<And>n e. behaviour t = Finishes n e \<Longrightarrow> i \<le> n) \<Longrightarrow>
   inventory (snd (wait_loop t timeout st i w)) =
     (if fst (wait_loop t timeout st i w) then effect (request_of t) (inventory w)
      else inventory w)"
proof (induction t timeout st i w rule: wait_loop.induct)
  case (1 t timeout st i w)
  note IH = 1(1) [OF prod.collapse]
  show ?case
  proof (cases "behaviour t")
    case Hangs
    then show ?thesis
      using IH
      by (subst (1 2) wait_loop_unfold) (simp add: Let_def)
  next
    case (Finishes n e)
    with 1(2) have le: "i \<le> n" by simp
    show ?thesis
    proof (cases "i = n")
      case True
      with Finishes show ?thesis
        by (subst (1 2) wait_loop_unfold) (cases e; simp add: Let_def)
    next
      case False
      with le have lt: "i < n" by simp
      then show ?thesis
        using IH Finishes
        by (subst (1 2) wait_loop_unfold) (simp add: Let_def)
    qed
  qed
qed


lemma submit_fields [simp]:
  "inventory (snd (submit q w)) = inventory w" "clock (snd (submit q w)) = clock w"
  "platform (snd (submit q w)) = platform w" "submitted (snd (submit q w)) = Suc (submitted w)"
  "trace (snd (submit q w)) = trace w @ [Call q]"
  "fst (submit q w) =
     (case platform w (submitted w) of
        Raises e \<Rightarrow> Inl e | Returns b \<Rightarrow> Inr \<lparr>behaviour = b, request_of = q\<rparr>)"
  by (simp_all add: submit_def Let_def split: response.split)

lemma wait_for_task_frame [simp]:
  "platform (snd (wait_for_task t timeout w)) = platform w"
  "submitted (snd (wait_for_task t timeout w)) = submitted w"
  "calls (trace (snd (wait_for_task t timeout w))) = calls (trace w)"
  using wait_loop_frame [of t timeout "clock w" 0 w] by (simp_all add: wait_for_task_def)

lemma wait_for_task_result:
  "fst (wait_for_task t timeout w) = completes timeout (Returns (behaviour t))"
proof (cases "behaviour t")
  case Hangs
  then show ?thesis
    by (simp add: wait_for_task_def wait_loop_Hangs completes_def)
next
  case (Finishes n e)
  then show ?thesis
    using wait_loop_result [of t n e 0 timeout "clock w" w]
    by (cases n) (auto simp add: wait_for_task_def completes_def)
qed

lemma wait_for_task_inventory:
  "inventory (snd (wait_for_task t timeout w)) =
     (if fst (wait_for_task t timeout w) then effect (request_of t) (inventory w)
      else inventory w)"
  unfolding wait_for_task_def by (rule wait_loop_inventory) simp

lemma after_refl: "after w [] (inventory w) w"
  by (simp add: after_def)

lemma after_trans:
  "after w qs vs1 w1 \<Longrightarrow> after w1 qs' vs2 w2 \<Longrightarrow> after w (qs @ qs') vs2 w2"
  by (simp add: after_def)

lemma after_silent [simp]:
  "after (print f vs w) qs vs0 w' = after w qs vs0 w'"
  "after w qs vs0 (print f vs w') = after w qs vs0 w'"
  "after (sleep d w) qs vs0 w' = after w qs vs0 w'"
  "after w qs vs0 (sleep d w') = after w qs vs0 w'"
  by (simp_all add: after_def)

lemma submit_wait:
  assumes "submit q w = (Inr t, w2)"
  shows "fst (wait_for_task t timeout w2) = completes timeout (platform w (submitted w))"
    and "after w [q] (if completes timeout (platform w (submitted w))
                      then effect q (inventory w) else inventory w)
           (snd (wait_for_task t timeout w2))"
proof -
  from assms obtain b where b: "platform w (submitted w) = Returns b"
    and t: "t = \<lparr>behaviour = b, request_of = q\<rparr>"
    by (auto simp: submit_def Let_def split: response.splits)
  from assms have w2: "w2 = snd (submit q w)" by simp
  show 1: "fst (wait_for_task t timeout w2) = completes timeout (platform w (submitted w))"
    by (simp add: wait_for_task_result b t)
  show "after w [q] (if completes timeout (platform w (submitted w))
                      then effect q (inventory w) else inventory w)
           (snd (wait_for_task t timeout w2))"
    using 1 by (simp add: after_def wait_for_task_inventory w2 t)
qed

lemma submit_raises:
  assumes "submit q w = (Inl e, w2)"
  shows "completes timeout (platform w (submitted w)) = False"
    and "after w [q] (inventory w) w2"
proof -
  from assms have "platform w (submitted w) = Raises e"
    by (auto simp: submit_def Let_def split: response.splits)
  then show "completes timeout (platform w (submitted w)) = False"
    by (simp add: completes_def)
  from assms have w2: "w2 = snd (submit q w)" by simp
  show "after w [q] (inventory w) w2"
    by (simp add: after_def w2)
qed

lemma power_off_vm_summary:
  "fst (power_off_vm r w) = completes 300 (platform w (submitted w))"
  "after w [PowerOffVM_Task r]
     (if completes 300 (platform w (submitted w))
      then effect (PowerOffVM_Task r) (inventory w) else inventory w)
     (snd (power_off_vm r w))"
proof -
  let ?w1 = "print ''  Powering off VM: {vm.name}...'' [StrV (vm_name_of r w)] w"
  obtain x w2 where s: "submit (PowerOffVM_Task r) ?w1 = (x, w2)"
    by (cases "submit (PowerOffVM_Task r) ?w1")
  have "fst (power_off_vm r w) = completes 300 (platform w (submitted w)) \<and>
    after w [PowerOffVM_Task r]
     (if completes 300 (platform w (submitted w))
      then effect (PowerOffVM_Task r) (inventory w) else inventory w)
     (snd (power_off_vm r w))"
  proof (cases x)
    case (Inl e)
    with s submit_raises(1) [of "PowerOffVM_Task r" ?w1 e w2 300]
      submit_raises(2) [of "PowerOffVM_Task r" ?w1 e w2] show ?thesis
      by (simp add: power_off_vm_def Let_def)
  next
    case (Inr t)
    with s submit_wait [of "PowerOffVM_Task r" ?w1 t w2 300] show ?thesis
      by (simp add: power_off_vm_def Let_def split: prod.split) auto
  qed
  then show "fst (power_off_vm r w) = completes 300 (platform w (submitted w))"
    "after w [PowerOffVM_Task r]
     (if completes 300 (platform w (submitted w))
      then effect (PowerOffVM_Task r) (inventory w) else inventory w)
     (snd (power_off_vm r w))" by simp_all
qed

lemma power_on_vm_summary:
  "fst (power_on_vm r w) = completes 300 (platform w (submitted w))"
  "after w [PowerOnVM_Task r]
     (if completes 300 (platform w (submitted w))
      then effect (PowerOnVM_Task r) (inventory w) else inventory w)
     (snd (power_on_vm r w))"
proof -
  let ?w1 = "print ''  Powering on VM: {vm.name}...'' [StrV (vm_name_of r w)] w"
  obtain x w2 where s: "submit (PowerOnVM_Task r) ?w1 = (x, w2)"
    by (cases "submit (PowerOnVM_Task r) ?w1")
  have "fst (power_on_vm r w) = completes 300 (platform w (submitted w)) \<and>
    after w [PowerOnVM_Task r]
     (if completes 300 (platform w (submitted w))
      then effect (PowerOnVM_Task r) (inventory w) else inventory w)
     (snd (power_on_vm r w))"
  proof (cases x)
    case (Inl e)
    with s submit_raises(1) [of "PowerOnVM_Task r" ?w1 e w2 300]
      submit_raises(2) [of "PowerOnVM_Task r" ?w1 e w2] show ?thesis
      by (simp add: power_on_vm_def Let_def)
  next
    case (Inr t)
    with s submit_wait [of "PowerOnVM_Task r" ?w1 t w2 300] show ?thesis
      by (simp add: power_on_vm_def Let_def split: prod.split) auto
  qed
  then show "fst (power_on_vm r w) = completes 300 (platform w (submitted w))"
    "after w [PowerOnVM_Task r]
     (if completes 300 (platform w (submitted w))
      then effect (PowerOnVM_Task r) (inventory w) else inventory w)
     (snd (power_on_vm r w))" by simp_all
qed

lemma add_ptp_device_summary:
  "fst (add_ptp_device r w) = completes 300 (platform w (submitted w))"
  "after w [ReconfigVM_Task r add_spec]
     (if completes 300 (platform w (submitted w))
      then effect (ReconfigVM_Task r add_spec) (inventory w) else inventory w)
     (snd (add_ptp_device r w))"
proof -
  let ?w1 = "print ''  Adding PTP device to VM: {vm.name}...'' [StrV (vm_name_of r w)] w"
  obtain x w2 where s: "submit (ReconfigVM_Task r add_spec) ?w1 = (x, w2)"
    by (cases "submit (ReconfigVM_Task r add_spec) ?w1")
  have "fst (add_ptp_device r w) = completes 300 (platform w (submitted w)) \<and>
    after w [ReconfigVM_Task r add_spec]
     (if completes 300 (platform w (submitted w))
      then effect (ReconfigVM_Task r add_spec) (inventory w) else inventory w)
     (snd (add_ptp_device r w))"
  proof (cases x)
    case (Inl e)
    with s submit_raises(1) [of "ReconfigVM_Task r add_spec" ?w1 e w2 300]
      submit_raises(2) [of "ReconfigVM_Task r add_spec" ?w1 e w2] show ?thesis
      by (simp add: add_ptp_device_def Let_def)
  next
    case (Inr t)
    with s submit_wait [of "ReconfigVM_Task r add_spec" ?w1 t w2 300] show ?thesis
      by (simp add: add_ptp_device_def Let_def split: prod.split) auto
  qed
  then show "fst (add_ptp_device r w) = completes 300 (platform w (submitted w))"
    "after w [ReconfigVM_Task r add_spec]
     (if completes 300 (platform w (submitted w))
      then effect (ReconfigVM_Task r add_spec) (inventory w) else inventory w)
     (snd (add_ptp_device r w))" by simp_all
qed

lemma get_ptp_device_print [simp]:
  "get_ptp_device r (print f vs w) = get_ptp_device r w"
  "get_ptp_device r (sleep d w) = get_ptp_device r w"
  "has_ptp_device r (print f vs w) = has_ptp_device r w"
  "has_ptp_device r (sleep d w) = has_ptp_device r w"
  "vm_name_of r (print f vs w) = vm_name_of r w"
  "vm_name_of r (sleep d w) = vm_name_of r w"
  "get_vm_by_name n (print f vs w) = get_vm_by_name n w"
  by (simp_all add: get_ptp_device_def has_ptp_device_def vm_name_of_def get_vm_by_name_def)

lemma remove_ptp_device_None:
  "get_ptp_device r w = None \<Longrightarrow>
   remove_ptp_device r w =
     (False, print ''  No PTP device found on {vm.name}'' [StrV (vm_name_of r w)]
               (print ''  Removing PTP device from VM: {vm.name}...'' [StrV (vm_name_of r w)] w))"
  by (simp add: remove_ptp_device_def Let_def)

lemma remove_ptp_device_summary:
  assumes d: "get_ptp_device r w = Some d"
  shows "fst (remove_ptp_device r w) = completes 300 (platform w (submitted w))"
  "after w [ReconfigVM_Task r (remove_spec d)]
     (if completes 300 (platform w (submitted w))
      then effect (ReconfigVM_Task r (remove_spec d)) (inventory w) else inventory w)
     (snd (remove_ptp_device r w))"
proof -
  let ?w1 = "print ''  Removing PTP device from VM: {vm.name}...'' [StrV (vm_name_of r w)] w"
  let ?q = "ReconfigVM_Task r (remove_spec d)"
  obtain x w2 where s: "submit ?q ?w1 = (x, w2)"
    by (cases "submit ?q ?w1")
  have "fst (remove_ptp_device r w) = completes 300 (platform w (submitted w)) \<and>
    after w [?q]
     (if completes 300 (platform w (submitted w))
      then effect ?q (inventory w) else inventory w)
     (snd (remove_ptp_device r w))"
  proof (cases x)
    case (Inl e)
    with s d submit_raises(1) [of ?q ?w1 e w2 300]
      submit_raises(2) [of ?q ?w1 e w2] show ?thesis
      by (simp add: remove_ptp_device_def Let_def)
  next
    case (Inr t)
    with s d submit_wait [of ?q ?w1 t w2 300] show ?thesis
      by (simp add: remove_ptp_device_def Let_def split: prod.split) auto
  qed
  then show "fst (remove_ptp_device r w) = completes 300 (platform w (submitted w))"
    "after w [?q]
     (if completes 300 (platform w (submitted w))
      then effect ?q (inventory w) else inventory w)
     (snd (remove_ptp_device r w))" by simp_all
qed


lemma afterD:
  "after w qs vs0 w' \<Longrightarrow> platform w' = platform w"
  "after w qs vs0 w' \<Longrightarrow> submitted w' = submitted w + length qs"
  "after w qs vs0 w' \<Longrightarrow> inventory w' = vs0"
  by (simp_all add: after_def)

lemma enable_edit_summary:
  "fst (enable_edit n r wpo w) =
     (if completes 300 (platform w (submitted w))
      then (if wpo then Some (completes 300 (platform w (Suc (submitted w)))) else Some True)
      else Some False)"
  "after w
     (if completes 300 (platform w (submitted w)) \<and> wpo
      then [ReconfigVM_Task r add_spec, PowerOnVM_Task r] else [ReconfigVM_Task r add_spec])
     (if completes 300 (platform w (submitted w))
      then (if wpo \<and> completes 300 (platform w (Suc (submitted w)))
            then effect (PowerOnVM_Task r) (effect (ReconfigVM_Task r add_spec) (inventory w))
            else effect (ReconfigVM_Task r add_spec) (inventory w))
      else inventory w)
     (snd (enable_edit n r wpo w))"
proof -
  let ?w1 = "snd (add_ptp_device r w)"
  let ?w2 = "snd (power_on_vm r (sleep 2 ?w1))"
  note a = add_ptp_device_summary [where r=r and w=w]
  note p = power_on_vm_summary [where r=r and w="sleep 2 ?w1"]
  have p1: "fst (power_on_vm r (sleep 2 ?w1)) = completes 300 (platform w (Suc (submitted w)))"
    using p(1) afterD(1,2) [OF a(2)] by simp
  have p2: "after w [ReconfigVM_Task r add_spec, PowerOnVM_Task r]
     (if completes 300 (platform w (Suc (submitted w)))
      then effect (PowerOnVM_Task r) (inventory ?w1) else inventory ?w1) ?w2"
  proof -
    have "after ?w1 [PowerOnVM_Task r]
     (if completes 300 (platform w (Suc (submitted w)))
      then effect (PowerOnVM_Task r) (inventory ?w1) else inventory ?w1) ?w2"
      using p(2) afterD(1,2) [OF a(2)] by (simp cong: if_cong)
    from after_trans [OF a(2) this] show ?thesis by simp
  qed
  have e: "enable_edit n r wpo w =
     (if wpo \<and> fst (add_ptp_device r w)
      then (if \<not> fst (power_on_vm r (sleep 2 ?w1))
            then (Some False, print ''  WARNING: Failed to power on VM {vm_name}'' [StrV n] ?w2)
            else (Some (fst (add_ptp_device r w)), ?w2))
      else (Some (fst (add_ptp_device r w)), ?w1))"
    by (simp add: enable_edit_def split: prod.split)
  show "fst (enable_edit n r wpo w) =
     (if completes 300 (platform w (submitted w))
      then (if wpo then Some (completes 300 (platform w (Suc (submitted w)))) else Some True)
      else Some False)"
    by (simp add: e a(1) p1)
  show "after w
     (if completes 300 (platform w (submitted w)) \<and> wpo
      then [ReconfigVM_Task r add_spec, PowerOnVM_Task r] else [ReconfigVM_Task r add_spec])
     (if completes 300 (platform w (submitted w))
      then (if wpo \<and> completes 300 (platform w (Suc (submitted w)))
            then effect (PowerOnVM_Task r) (effect (ReconfigVM_Task r add_spec) (inventory w))
            else effect (ReconfigVM_Task r add_spec) (inventory w))
      else inventory w)
     (snd (enable_edit n r wpo w))"
    using a(2) p2 afterD(3) [OF a(2)] by (auto simp add: e a(1) p1 split: if_splits)
qed


lemma process_enable_skip:
  "has_ptp_device r w \<Longrightarrow>
   process_enable n r w =
     (None, print ''  VM {vm_name} already has a PTP device. Skipping.'' [StrV n] w)"
  by (simp add: process_enable_def)

lemma process_enable_summary:
  assumes no: "\<not> has_ptp_device r w"
  shows "fst (process_enable n r w) =
     (if powerState (inventory w ! r) = poweredOn
      then (if completes 300 (platform w (submitted w))
            then (if completes 300 (platform w (Suc (submitted w)))
                  then Some (completes 300 (platform w (Suc (Suc (submitted w)))))
                  else Some False)
            else Some False)
      else Some (completes 300 (platform w (submitted w))))"
  and "after w
     (if powerState (inventory w ! r) = poweredOn
      then (if completes 300 (platform w (submitted w))
            then (if completes 300 (platform w (Suc (submitted w)))
                  then [PowerOffVM_Task r, ReconfigVM_Task r add_spec, PowerOnVM_Task r]
                  else [PowerOffVM_Task r, ReconfigVM_Task r add_spec])
            else [PowerOffVM_Task r])
      else [ReconfigVM_Task r add_spec])
     (if powerState (inventory w ! r) = poweredOn
      then (if completes 300 (platform w (submitted w))
            then (if completes 300 (platform w (Suc (submitted w)))
                  then (if completes 300 (platform w (Suc (Suc (submitted w))))
                        then effect (PowerOnVM_Task r)
                               (effect (ReconfigVM_Task r add_spec)
                                  (effect (PowerOffVM_Task r) (inventory w)))
                        else effect (ReconfigVM_Task r add_spec)
                               (effect (PowerOffVM_Task r) (inventory w)))
                  else effect (PowerOffVM_Task r) (inventory w))
            else inventory w)
      else (if completes 300 (platform w (submitted w))
            then effect (ReconfigVM_Task r add_spec) (inventory w) else inventory w))
     (snd (process_enable n r w))"
proof -
  let ?w1 = "print ''  Current power state: {power_state}'' [PowerV (powerState (inventory w ! r))] w"
  let ?po = "power_off_vm r ?w1"
  let ?w3 = "sleep 2 (snd ?po)"
  note off = power_off_vm_summary [where r=r and w="?w1"]
  have off1: "fst ?po = completes 300 (platform w (submitted w))"
    using off(1) by simp
  have off2: "after w [PowerOffVM_Task r]
     (if completes 300 (platform w (submitted w))
      then effect (PowerOffVM_Task r) (inventory w) else inventory w) (snd ?po)"
    using off(2) by (simp cong: if_cong)
  have pe_eq: "process_enable n r w =
     (if powerState (inventory w ! r) = poweredOn
      then (if \<not> fst ?po then (Some False, snd ?po) else enable_edit n r True ?w3)
      else enable_edit n r False ?w1)"
    using no by (simp add: process_enable_def Let_def split: prod.split)
  note e3 = enable_edit_summary [where n=n and r=r and wpo=True and w="?w3"]
  note e1 = enable_edit_summary [where n=n and r=r and wpo=False and w="?w1"]
  show "fst (process_enable n r w) =
     (if powerState (inventory w ! r) = poweredOn
      then (if completes 300 (platform w (submitted w))
            then (if completes 300 (platform w (Suc (submitted w)))
                  then Some (completes 300 (platform w (Suc (Suc (submitted w)))))
                  else Some False)
            else Some False)
      else Some (completes 300 (platform w (submitted w))))"
  proof (cases "powerState (inventory w ! r) = poweredOn")
    case False
    with e1(1) show ?thesis
      by (simp add: pe_eq)
  next
    case on: True
    show ?thesis
    proof (cases "completes 300 (platform w (submitted w))")
      case False
      with on off1 show ?thesis
        by (simp add: pe_eq)
    next
      case True
      with on off1 e3(1) afterD(1,2) [OF off2] show ?thesis
        by (simp add: pe_eq)
    qed
  qed
  show "after w
     (if powerState (inventory w ! r) = poweredOn
      then (if completes 300 (platform w (submitted w))
            then (if completes 300 (platform w (Suc (submitted w)))
                  then [PowerOffVM_Task r, ReconfigVM_Task r add_spec, PowerOnVM_Task r]
                  else [PowerOffVM_Task r, ReconfigVM_Task r add_spec])
            else [PowerOffVM_Task r])
      else [ReconfigVM_Task r add_spec])
     (if powerState (inventory w ! r) = poweredOn
      then (if completes 300 (platform w (submitted w))
            then (if completes 300 (platform w (Suc (submitted w)))
                  then (if completes 300 (platform w (Suc (Suc (submitted w))))
                        then effect (PowerOnVM_Task r)
                               (effect (ReconfigVM_Task r add_spec)
                                  (effect (PowerOffVM_Task r) (inventory w)))
                        else effect (ReconfigVM_Task r add_spec)
                               (effect (PowerOffVM_Task r) (inventory w)))
                  else effect (PowerOffVM_Task r) (inventory w))
            else inventory w)
      else (if completes 300 (platform w (submitted w))
            then effect (ReconfigVM_Task r add_spec) (inventory w) else inventory w))
     (snd (process_enable n r w))"
  proof (cases "powerState (inventory w ! r) = poweredOn")
    case False
    have "after w [ReconfigVM_Task r add_spec]
      (if completes 300 (platform w (submitted w))
            then effect (ReconfigVM_Task r add_spec) (inventory w) else inventory w)
      (snd (enable_edit n r False ?w1))"
      using e1(2) by (simp cong: if_cong)
    with False show ?thesis
      by (simp add: pe_eq)
  next
    case on: True
    show ?thesis
    proof (cases "completes 300 (platform w (submitted w))")
      case False
      with on off1 off2 show ?thesis
        by (simp add: pe_eq)
    next
      case True
      have pe: "process_enable n r w = enable_edit n r True ?w3"
        using on off1 True by (simp add: pe_eq)
      have o: "after w [PowerOffVM_Task r] (effect (PowerOffVM_Task r) (inventory w)) (snd ?po)"
        using off2 True by simp
      have "after (snd ?po)
       (if completes 300 (platform w (Suc (submitted w)))
        then [ReconfigVM_Task r add_spec, PowerOnVM_Task r] else [ReconfigVM_Task r add_spec])
       (if completes 300 (platform w (Suc (submitted w)))
        then (if completes 300 (platform w (Suc (Suc (submitted w))))
            then effect (PowerOnVM_Task r) (effect (ReconfigVM_Task r add_spec) (effect (PowerOffVM_Task r) (inventory w)))
            else effect (ReconfigVM_Task r add_spec) (effect (PowerOffVM_Task r) (inventory w)))
        else effect (PowerOffVM_Task r) (inventory w))
       (snd (enable_edit n r True ?w3))"
        using e3(2) afterD [OF o] by (simp cong: if_cong)
      from after_trans [OF o this] on True show ?thesis
        by (auto simp add: pe split: if_splits)
    qed
  qed
qed


lemma nth_list_update_total:
  "(xs[i := x]) ! j = (if i = j \<and> i < length xs then x else xs ! j)"
  by (cases "i < length xs") (auto simp: nth_list_update list_update_beyond)

lemma devices_effect_power [simp]:
  "devices (effect (PowerOffVM_Task r) vs ! j) = devices (vs ! j)"
  "devices (effect (PowerOnVM_Task r) vs ! j) = devices (vs ! j)"
  by (simp_all add: effect.simps nth_list_update_total)

lemma get_ptp_has_ptp: "has_ptp ds = (get_ptp ds \<noteq> None)"
  by (induction ds) auto

lemma disable_edit_summary:
  assumes d: "get_ptp_device r w = Some d"
  shows "fst (disable_edit n r wpo w) =
     (if completes 300 (platform w (submitted w))
      then (if wpo then Some (completes 300 (platform w (Suc (submitted w)))) else Some True)
      else Some False)"
  and "after w
     (if completes 300 (platform w (submitted w)) \<and> wpo
      then [ReconfigVM_Task r (remove_spec d), PowerOnVM_Task r] else [ReconfigVM_Task r (remove_spec d)])
     (if completes 300 (platform w (submitted w))
      then (if wpo \<and> completes 300 (platform w (Suc (submitted w)))
            then effect (PowerOnVM_Task r) (effect (ReconfigVM_Task r (remove_spec d)) (inventory w))
            else effect (ReconfigVM_Task r (remove_spec d)) (inventory w))
      else inventory w)
     (snd (disable_edit n r wpo w))"
proof -
  let ?w1 = "snd (remove_ptp_device r w)"
  let ?w2 = "snd (power_on_vm r (sleep 2 ?w1))"
  note a = remove_ptp_device_summary [OF d]
  note p = power_on_vm_summary [where r=r and w="sleep 2 ?w1"]
  have p1: "fst (power_on_vm r (sleep 2 ?w1)) = completes 300 (platform w (Suc (submitted w)))"
    using p(1) afterD(1,2) [OF a(2)] by simp
  have p2: "after w [ReconfigVM_Task r (remove_spec d), PowerOnVM_Task r]
     (if completes 300 (platform w (Suc (submitted w)))
      then effect (PowerOnVM_Task r) (inventory ?w1) else inventory ?w1) ?w2"
  proof -
    have "after ?w1 [PowerOnVM_Task r]
     (if completes 300 (platform w (Suc (submitted w)))
      then effect (PowerOnVM_Task r) (inventory ?w1) else inventory ?w1) ?w2"
      using p(2) afterD(1,2) [OF a(2)] by (simp cong: if_cong)
    from after_trans [OF a(2) this] show ?thesis by simp
  qed
  have e: "disable_edit n r wpo w =
     (if wpo \<and> fst (remove_ptp_device r w)
      then (if \<not> fst (power_on_vm r (sleep 2 ?w1))
            then (Some False, print ''  WARNING: Failed to power on VM {vm_name}'' [StrV n] ?w2)
            else (Some (fst (remove_ptp_device r w)), ?w2))
      else (Some (fst (remove_ptp_device r w)), ?w1))"
    by (simp add: disable_edit_def split: prod.split)
  show "fst (disable_edit n r wpo w) =
     (if completes 300 (platform w (submitted w))
      then (if wpo then Some (completes 300 (platform w (Suc (submitted w)))) else Some True)
      else Some False)"
    by (simp add: e a(1) p1)
  show "after w
     (if completes 300 (platform w (submitted w)) \<and> wpo
      then [ReconfigVM_Task r (remove_spec d), PowerOnVM_Task r] else [ReconfigVM_Task r (remove_spec d)])
     (if completes 300 (platform w (submitted w))
      then (if wpo \<and> completes 300 (platform w (Suc (submitted w)))
            then effect (PowerOnVM_Task r) (effect (ReconfigVM_Task r (remove_spec d)) (inventory w))
            else effect (ReconfigVM_Task r (remove_spec d)) (inventory w))
      else inventory w)
     (snd (disable_edit n r wpo w))"
    using a(2) p2 afterD(3) [OF a(2)] by (auto simp add: e a(1) p1 split: if_splits)
qed



lemma process_disable_summary:
  assumes d: "get_ptp_device r w = Some d"
  shows "fst (process_disable n r w) =
     (if powerState (inventory w ! r) = poweredOn
      then (if completes 300 (platform w (submitted w))
            then (if completes 300 (platform w (Suc (submitted w)))
                  then Some (completes 300 (platform w (Suc (Suc (submitted w)))))
                  else Some False)
            else Some False)
      else Some (completes 300 (platform w (submitted w))))"
  and "after w
     (if powerState (inventory w ! r) = poweredOn
      then (if completes 300 (platform w (submitted w))
            then (if completes 300 (platform w (Suc (submitted w)))
                  then [PowerOffVM_Task r, ReconfigVM_Task r (remove_spec d), PowerOnVM_Task r]
                  else [PowerOffVM_Task r, ReconfigVM_Task r (remove_spec d)])
            else [PowerOffVM_Task r])
      else [ReconfigVM_Task r (remove_spec d)])
     (if powerState (inventory w ! r) = poweredOn
      then (if completes 300 (platform w (submitted w))
            then (if completes 300 (platform w (Suc (submitted w)))
                  then (if completes 300 (platform w (Suc (Suc (submitted w))))
                        then effect (PowerOnVM_Task r)
                               (effect (ReconfigVM_Task r (remove_spec d))
                                  (effect (PowerOffVM_Task r) (inventory w)))
                        else effect (ReconfigVM_Task r (remove_spec d))
                               (effect (PowerOffVM_Task r) (inventory w)))
                  else effect (PowerOffVM_Task r) (inventory w))
            else inventory w)
      else (if completes 300 (platform w (submitted w))
            then effect (ReconfigVM_Task r (remove_spec d)) (inventory w) else inventory w))
     (snd (process_disable n r w))"
proof -
  let ?w1 = "print ''  Current power state: {power_state}'' [PowerV (powerState (inventory w ! r))] w"
  let ?po = "power_off_vm r ?w1"
  let ?w3 = "sleep 2 (snd ?po)"
  have has: "has_ptp_device r w"
    using d by (simp add: get_ptp_device_def has_ptp_device_def get_ptp_has_ptp)
  note off = power_off_vm_summary [where r=r and w="?w1"]
  have off1: "fst ?po = completes 300 (platform w (submitted w))"
    using off(1) by simp
  have off2: "after w [PowerOffVM_Task r]
     (if completes 300 (platform w (submitted w))
      then effect (PowerOffVM_Task r) (inventory w) else inventory w) (snd ?po)"
    using off(2) by (simp cong: if_cong)
  have pe_eq: "process_disable n r w =
     (if powerState (inventory w ! r) = poweredOn
      then (if \<not> fst ?po then (Some False, snd ?po) else disable_edit n r True ?w3)
      else disable_edit n r False ?w1)"
    using has by (simp add: process_disable_def Let_def split: prod.split)
  have d1: "get_ptp_device r ?w1 = Some d" using d by simp
  note e1 = disable_edit_summary [OF d1, where n=n and wpo=False]
  show "fst (process_disable n r w) =
     (if powerState (inventory w ! r) = poweredOn
      then (if completes 300 (platform w (submitted w))
            then (if completes 300 (platform w (Suc (submitted w)))
                  then Some (completes 300 (platform w (Suc (Suc (submitted w)))))
                  else Some False)
            else Some False)
      else Some (completes 300 (platform w (submitted w))))"
  proof (cases "powerState (inventory w ! r) = poweredOn")
    case False
    with e1(1) show ?thesis
      by (simp add: pe_eq)
  next
    case on: True
    show ?thesis
    proof (cases "completes 300 (platform w (submitted w))")
      case False
      with on off1 show ?thesis
        by (simp add: pe_eq)
    next
      case True
      have d3: "get_ptp_device r ?w3 = Some d"
        using d afterD(3) [OF off2] True by (simp add: get_ptp_device_def)
      note e3 = disable_edit_summary [OF d3, where n=n and wpo=True]
      from True on off1 e3(1) afterD(1,2) [OF off2] show ?thesis
        by (simp add: pe_eq)
    qed
  qed
  show "after w
     (if powerState (inventory w ! r) = poweredOn
      then (if completes 300 (platform w (submitted w))
            then (if completes 300 (platform w (Suc (submitted w)))
                  then [PowerOffVM_Task r, ReconfigVM_Task r (remove_spec d), PowerOnVM_Task r]
                  else [PowerOffVM_Task r, ReconfigVM_Task r (remove_spec d)])
            else [PowerOffVM_Task r])
      else [ReconfigVM_Task r (remove_spec d)])
     (if powerState (inventory w ! r) = poweredOn
      then (if completes 300 (platform w (submitted w))
            then (if completes 300 (platform w (Suc (submitted w)))
                  then (if completes 300 (platform w (Suc (Suc (submitted w))))
                        then effect (PowerOnVM_Task r)
                               (effect (ReconfigVM_Task r (remove_spec d))
                                  (effect (PowerOffVM_Task r) (inventory w)))
                        else effect (ReconfigVM_Task r (remove_spec d))
                               (effect (PowerOffVM_Task r) (inventory w)))
                  else effect (PowerOffVM_Task r) (inventory w))
            else inventory w)
      else (if completes 300 (platform w (submitted w))
            then effect (ReconfigVM_Task r (remove_spec d)) (inventory w) else inventory w))
     (snd (process_disable n r w))"
  proof (cases "powerState (inventory w ! r) = poweredOn")
    case False
    have "after w [ReconfigVM_Task r (remove_spec d)]
      (if completes 300 (platform w (submitted w))
            then effect (ReconfigVM_Task r (remove_spec d)) (inventory w) else inventory w)
      (snd (disable_edit n r False ?w1))"
      using e1(2) by (simp cong: if_cong)
    with False show ?thesis
      by (simp add: pe_eq)
  next
    case on: True
    show ?thesis
    proof (cases "completes 300 (platform w (submitted w))")
      case False
      with on off1 off2 show ?thesis
        by (simp add: pe_eq)
    next
      case True
      have pe: "process_disable n r w = disable_edit n r True ?w3"
        using on off1 True by (simp add: pe_eq)
      have o: "after w [PowerOffVM_Task r] (effect (PowerOffVM_Task r) (inventory w)) (snd ?po)"
        using off2 True by simp
      have d3: "get_ptp_device r ?w3 = Some d"
        using d afterD(3) [OF off2] True by (simp add: get_ptp_device_def)
      note e3 = disable_edit_summary [OF d3, where n=n and wpo=True]
      have "after (snd ?po)
       (if completes 300 (platform w (Suc (submitted w)))
        then [ReconfigVM_Task r (remove_spec d), PowerOnVM_Task r] else [ReconfigVM_Task r (remove_spec d)])
       (if completes 300 (platform w (Suc (submitted w)))
        then (if completes 300 (platform w (Suc (Suc (submitted w))))
            then effect (PowerOnVM_Task r) (effect (ReconfigVM_Task r (remove_spec d)) (effect (PowerOffVM_Task r) (inventory w)))
            else effect (ReconfigVM_Task r (remove_spec d)) (effect (PowerOffVM_Task r) (inventory w)))
        else effect (PowerOffVM_Task r) (inventory w))
       (snd (disable_edit n r True ?w3))"
        using e3(2) afterD [OF o] by (simp cong: if_cong)
      from after_trans [OF o this] on True show ?thesis
        by (auto simp add: pe split: if_splits)
    qed
  qed
qed

lemma find_vm_Some:
  "find_vm n vs = Some r \<Longrightarrow> r < length vs \<and> name (vs ! r) = n"
  by (induction vs arbitrary: r) (auto split: if_splits)

lemma get_vm_by_name_Some:
  "get_vm_by_name n w = Some r \<Longrightarrow> r < length (inventory w) \<and> vm_name_of r w = n"
  by (simp add: get_vm_by_name_def vm_name_of_def find_vm_Some)

lemma process_vm_found:
  "get_vm_by_name n w = Some r \<Longrightarrow>
   process_vm n a w =
     (if a = ''read'' then process_read r (print ''Processing VM: {vm_name}'' [StrV n] w)
      else if a = ''enable'' then process_enable n r (print ''Processing VM: {vm_name}'' [StrV n] w)
      else if a = ''disable'' then process_disable n r (print ''Processing VM: {vm_name}'' [StrV n] w)
      else (Some False, print ''Processing VM: {vm_name}'' [StrV n] w))"
  by (simp add: process_vm_def Let_def)

lemma process_disable_skip:
  "\<not> has_ptp_device r w \<Longrightarrow>
   process_disable n r w =
     (None, print ''  VM {vm_name} does not have a PTP device. Skipping.'' [StrV n] w)"
  by (simp add: process_disable_def)

lemma world_of_simps:
  "inventory (world_of p) = [vm_A, vm_C]" "clock (world_of p) = 0" "platform (world_of p) = p"
  "submitted (world_of p) = 0" "trace (world_of p) = []"
  "get_vm_by_name ''A'' (world_of p) = Some 0" "get_vm_by_name ''C'' (world_of p) = Some (Suc 0)"
  "get_vm_by_name ''B'' (world_of p) = None"
  "has_ptp_device 0 (world_of p) = False" "has_ptp_device (Suc 0) (world_of p) = True"
  "get_ptp_device (Suc 0) (world_of p) = Some (VirtualPrecisionClock 19000 ''Precision Clock 1'')"
  "powerState (inventory (world_of p) ! 0) = poweredOn"
  "powerState (inventory (world_of p) ! Suc 0) = poweredOff"
  by (simp_all add: world_of_def vm_A_def vm_C_def get_vm_by_name_def has_ptp_device_def
        get_ptp_device_def)

section \<open>The orchestration of one VM\<close>

text \<open>C3: for a found VM that already has a precision clock, \<open>enable\<close> returns
  None (skipped: neither True nor False), submits no request at all (no reconfiguration,
  no power operation) and leaves the inventory alone, and the batch loop files the VM
  under \<open>skipped\<close>; for a found VM without one, \<open>disable\<close> does the same.\<close>

theorem skip_when_nothing_to_do:
  assumes "get_vm_by_name n w = Some r"
  shows "(has_ptp_device r w \<longrightarrow>
            fst (process_vm n ''enable'' w) = None \<and>
            calls (trace (snd (process_vm n ''enable'' w))) = calls (trace w) \<and>
            submitted (snd (process_vm n ''enable'' w)) = submitted w \<and>
            inventory (snd (process_vm n ''enable'' w)) = inventory w \<and>
            fst (process_all [r] ''enable'' res w) = res\<lparr>r_skipped := r_skipped res @ [n]\<rparr>) \<and>
         (\<not> has_ptp_device r w \<longrightarrow>
            fst (process_vm n ''disable'' w) = None \<and>
            calls (trace (snd (process_vm n ''disable'' w))) = calls (trace w) \<and>
            submitted (snd (process_vm n ''disable'' w)) = submitted w \<and>
            inventory (snd (process_vm n ''disable'' w)) = inventory w \<and>
            fst (process_all [r] ''disable'' res w) = res\<lparr>r_skipped := r_skipped res @ [n]\<rparr>)"
  using assms get_vm_by_name_Some [OF assms]
  by (simp add: process_vm_found process_enable_skip process_disable_skip vm_name_of_def
        split: prod.split)

theorem skip_when_nothing_to_do_witness:
  "fst (process_vm ''C'' ''enable'' (world_of (\<lambda>n. Returns (Finishes 1 Succeeds)))) = None \<and>
   calls (trace (snd (process_vm ''C'' ''enable'' (world_of (\<lambda>n. Returns (Finishes 1 Succeeds)))))) = [] \<and>
   fst (process_all [Suc 0] ''enable'' \<lparr>r_success = [], r_failed = [], r_skipped = []\<rparr>
          (world_of (\<lambda>n. Returns (Finishes 1 Succeeds)))) =
     \<lparr>r_success = [], r_failed = [], r_skipped = [''C'']\<rparr> \<and>
   fst (process_vm ''A'' ''disable'' (world_of (\<lambda>n. Returns (Finishes 1 Succeeds)))) = None \<and>
   calls (trace (snd (process_vm ''A'' ''disable'' (world_of (\<lambda>n. Returns (Finishes 1 Succeeds)))))) = []"
proof -
  let ?w = "world_of (\<lambda>n. Returns (Finishes 1 Succeeds))"
  have a: "get_vm_by_name ''A'' ?w = Some 0" and c: "get_vm_by_name ''C'' ?w = Some (Suc 0)"
    by (simp_all add: world_of_simps)
  from skip_when_nothing_to_do [OF a]
    skip_when_nothing_to_do [OF c, of "\<lparr>r_success = [], r_failed = [], r_skipped = []\<rparr>"]
  show ?thesis
    by (simp add: world_of_simps)
qed

text \<open>C9: called on a VM without a precision clock, \<open>remove_ptp_device\<close> returns
  False and submits no request.\<close>

theorem remove_without_device_fails:
  assumes "\<not> has_ptp_device r w"
  shows "fst (remove_ptp_device r w) = False \<and>
         calls (trace (snd (remove_ptp_device r w))) = calls (trace w) \<and>
         submitted (snd (remove_ptp_device r w)) = submitted w \<and>
         inventory (snd (remove_ptp_device r w)) = inventory w"
proof -
  from assms have "get_ptp_device r w = None"
    by (simp add: has_ptp_device_def get_ptp_device_def get_ptp_has_ptp)
  then show ?thesis by (simp add: remove_ptp_device_None)
qed

theorem remove_without_device_fails_witness:
  "\<not> has_ptp_device 0 (world_of (\<lambda>n. Returns (Finishes 1 Succeeds))) \<and>
   fst (remove_ptp_device 0 (world_of (\<lambda>n. Returns (Finishes 1 Succeeds)))) = False \<and>
   calls (trace (snd (remove_ptp_device 0 (world_of (\<lambda>n. Returns (Finishes 1 Succeeds)))))) = [] \<and>
   submitted (snd (remove_ptp_device 0 (world_of (\<lambda>n. Returns (Finishes 1 Succeeds))))) = 0"
proof -
  let ?w = "world_of (\<lambda>n. Returns (Finishes 1 Succeeds))"
  have h: "\<not> has_ptp_device 0 ?w" by (simp add: world_of_simps)
  from remove_without_device_fails [OF h] h show ?thesis
    by (simp add: world_of_simps)
qed



lemma process_vm_enable_summary:
  assumes found: "get_vm_by_name n w = Some r" and no: "\<not> has_ptp_device r w"
  shows "fst (process_vm n ''enable'' w) =
     (if powerState (inventory w ! r) = poweredOn
      then (if completes 300 (platform w (submitted w))
            then (if completes 300 (platform w (Suc (submitted w)))
                  then Some (completes 300 (platform w (Suc (Suc (submitted w)))))
                  else Some False)
            else Some False)
      else Some (completes 300 (platform w (submitted w))))"
  and "after w
     (if powerState (inventory w ! r) = poweredOn
      then (if completes 300 (platform w (submitted w))
            then (if completes 300 (platform w (Suc (submitted w)))
                  then [PowerOffVM_Task r, ReconfigVM_Task r add_spec, PowerOnVM_Task r]
                  else [PowerOffVM_Task r, ReconfigVM_Task r add_spec])
            else [PowerOffVM_Task r])
      else [ReconfigVM_Task r add_spec])
     (if powerState (inventory w ! r) = poweredOn
      then (if completes 300 (platform w (submitted w))
            then (if completes 300 (platform w (Suc (submitted w)))
                  then (if completes 300 (platform w (Suc (Suc (submitted w))))
                        then effect (PowerOnVM_Task r)
                               (effect (ReconfigVM_Task r add_spec)
                                  (effect (PowerOffVM_Task r) (inventory w)))
                        else effect (ReconfigVM_Task r add_spec)
                               (effect (PowerOffVM_Task r) (inventory w)))
                  else effect (PowerOffVM_Task r) (inventory w))
            else inventory w)
      else (if completes 300 (platform w (submitted w))
            then effect (ReconfigVM_Task r add_spec) (inventory w) else inventory w))
     (snd (process_vm n ''enable'' w))"
proof -
  let ?w0 = "print ''Processing VM: {vm_name}'' [StrV n] w"
  have no0: "\<not> has_ptp_device r ?w0" using no by simp
  have eq: "process_vm n ''enable'' w = process_enable n r ?w0"
    using found by (simp add: process_vm_found)
  show "fst (process_vm n ''enable'' w) =
     (if powerState (inventory w ! r) = poweredOn
      then (if completes 300 (platform w (submitted w))
            then (if completes 300 (platform w (Suc (submitted w)))
                  then Some (completes 300 (platform w (Suc (Suc (submitted w)))))
                  else Some False)
            else Some False)
      else Some (completes 300 (platform w (submitted w))))"
    using process_enable_summary(1) [OF no0, of n] by (simp add: eq)
  show "after w
     (if powerState (inventory w ! r) = poweredOn
      then (if completes 300 (platform w (submitted w))
            then (if completes 300 (platform w (Suc (submitted w)))
                  then [PowerOffVM_Task r, ReconfigVM_Task r add_spec, PowerOnVM_Task r]
                  else [PowerOffVM_Task r, ReconfigVM_Task r add_spec])
            else [PowerOffVM_Task r])
      else [ReconfigVM_Task r add_spec])
     (if powerState (inventory w ! r) = poweredOn
      then (if completes 300 (platform w (submitted w))
            then (if completes 300 (platform w (Suc (submitted w)))
                  then (if completes 300 (platform w (Suc (Suc (submitted w))))
                        then effect (PowerOnVM_Task r)
                               (effect (ReconfigVM_Task r add_spec)
                                  (effect (PowerOffVM_Task r) (inventory w)))
                        else effect (ReconfigVM_Task r add_spec)
                               (effect (PowerOffVM_Task r) (inventory w)))
                  else effect (PowerOffVM_Task r) (inventory w))
            else inventory w)
      else (if completes 300 (platform w (submitted w))
            then effect (ReconfigVM_Task r add_spec) (inventory w) else inventory w))
     (snd (process_vm n ''enable'' w))"
    using process_enable_summary(2) [OF no0, of n] by (simp add: eq cong: if_cong)
qed

lemma afterD_calls: "after w qs vs0 w' \<Longrightarrow> calls (trace w') = calls (trace w) @ qs"
  by (simp add: after_def)


lemma completes_simps:
  "completes t (Raises e) = False" "completes t (Returns Hangs) = False"
  "completes t (Returns (Finishes n (Errors m))) = False"
  "completes t (Returns (Finishes n Succeeds)) = (n = 0 \<or> int n \<le> t + 1)"
  by (simp_all add: completes_def)

lemma vm_simps:
  "name vm_A = ''A''" "powerState vm_A = poweredOn"
  "devices vm_A = [VirtualDevice 2000 ''Hard disk 1'']"
  "vmOpNotificationToAppEnabled vm_A = None" "vmOpNotificationTimeout vm_A = Some 600"
  "name vm_C = ''C''" "powerState vm_C = poweredOff"
  "devices vm_C = [VirtualDevice 2000 ''Hard disk 1'', VirtualPrecisionClock 19000 ''Precision Clock 1'']"
  "vmOpNotificationToAppEnabled vm_C = Some False" "vmOpNotificationTimeout vm_C = None"
  by (simp_all add: vm_A_def vm_C_def)



lemma process_vm_disable_summary:
  assumes found: "get_vm_by_name n w = Some r" and d: "get_ptp_device r w = Some d"
  shows "fst (process_vm n ''disable'' w) =
     (if powerState (inventory w ! r) = poweredOn
      then (if completes 300 (platform w (submitted w))
            then (if completes 300 (platform w (Suc (submitted w)))
                  then Some (completes 300 (platform w (Suc (Suc (submitted w)))))
                  else Some False)
            else Some False)
      else Some (completes 300 (platform w (submitted w))))"
  and "after w
     (if powerState (inventory w ! r) = poweredOn
      then (if completes 300 (platform w (submitted w))
            then (if completes 300 (platform w (Suc (submitted w)))
                  then [PowerOffVM_Task r, ReconfigVM_Task r (remove_spec d), PowerOnVM_Task r]
                  else [PowerOffVM_Task r, ReconfigVM_Task r (remove_spec d)])
            else [PowerOffVM_Task r])
      else [ReconfigVM_Task r (remove_spec d)])
     (if powerState (inventory w ! r) = poweredOn
      then (if completes 300 (platform w (submitted w))
            then (if completes 300 (platform w (Suc (submitted w)))
                  then (if completes 300 (platform w (Suc (Suc (submitted w))))
                        then effect (PowerOnVM_Task r)
                               (effect (ReconfigVM_Task r (remove_spec d))
                                  (effect (PowerOffVM_Task r) (inventory w)))
                        else effect (ReconfigVM_Task r (remove_spec d))
                               (effect (PowerOffVM_Task r) (inventory w)))
                  else effect (PowerOffVM_Task r) (inventory w))
            else inventory w)
      else (if completes 300 (platform w (submitted w))
            then effect (ReconfigVM_Task r (remove_spec d)) (inventory w) else inventory w))
     (snd (process_vm n ''disable'' w))"
proof -
  let ?w0 = "print ''Processing VM: {vm_name}'' [StrV n] w"
  have d0: "get_ptp_device r ?w0 = Some d" using d by simp
  have eq: "process_vm n ''disable'' w = process_disable n r ?w0"
    using found by (simp add: process_vm_found)
  show "fst (process_vm n ''disable'' w) =
     (if powerState (inventory w ! r) = poweredOn
      then (if completes 300 (platform w (submitted w))
            then (if completes 300 (platform w (Suc (submitted w)))
                  then Some (completes 300 (platform w (Suc (Suc (submitted w)))))
                  else Some False)
            else Some False)
      else Some (completes 300 (platform w (submitted w))))"
    using process_disable_summary(1) [OF d0, of n] by (simp add: eq)
  show "after w
     (if powerState (inventory w ! r) = poweredOn
      then (if completes 300 (platform w (submitted w))
            then (if completes 300 (platform w (Suc (submitted w)))
                  then [PowerOffVM_Task r, ReconfigVM_Task r (remove_spec d), PowerOnVM_Task r]
                  else [PowerOffVM_Task r, ReconfigVM_Task r (remove_spec d)])
            else [PowerOffVM_Task r])
      else [ReconfigVM_Task r (remove_spec d)])
     (if powerState (inventory w ! r) = poweredOn
      then (if completes 300 (platform w (submitted w))
            then (if completes 300 (platform w (Suc (submitted w)))
                  then (if completes 300 (platform w (Suc (Suc (submitted w))))
                        then effect (PowerOnVM_Task r)
                               (effect (ReconfigVM_Task r (remove_spec d))
                                  (effect (PowerOffVM_Task r) (inventory w)))
                        else effect (ReconfigVM_Task r (remove_spec d))
                               (effect (PowerOffVM_Task r) (inventory w)))
                  else effect (PowerOffVM_Task r) (inventory w))
            else inventory w)
      else (if completes 300 (platform w (submitted w))
            then effect (ReconfigVM_Task r (remove_spec d)) (inventory w) else inventory w))
     (snd (process_vm n ''disable'' w))"
    using process_disable_summary(2) [OF d0, of n] by (simp add: eq cong: if_cong)
qed





lemma length_effect [simp]: "length (effect q vs) = length vs"
  by (cases q) (simp_all add: effect.simps)

lemma ptp_count_has_ptp: "has_ptp ds = (0 < ptp_count ds)"
  by (induction ds) (auto simp: ptp_count_def)

lemma ptp_count_filter: "ptp_count (filter P ds) \<le> ptp_count ds"
  by (induction ds) (auto simp: ptp_count_def)

lemma devices_effect_add:
  "devices (effect (ReconfigVM_Task r add_spec) vs ! j) =
     (if r = j \<and> r < length vs
      then devices (vs ! j) @ [VirtualPrecisionClock (fresh_key (devices (vs ! j))) []]
      else devices (vs ! j))"
  by (simp add: effect.simps nth_list_update_total add_spec_def ConfigSpec_def apply_spec_def)

lemma devices_effect_remove:
  "devices (effect (ReconfigVM_Task r (remove_spec d)) vs ! j) =
     (if r = j \<and> r < length vs
      then filter (\<lambda>x. key x \<noteq> key d) (devices (vs ! j))
      else devices (vs ! j))"
  by (simp add: effect.simps nth_list_update_total remove_spec_def ConfigSpec_def apply_spec_def)

lemma ptp_count_effect_add:
  "\<not> has_ptp (devices (vs ! r)) \<Longrightarrow> ptp_count (devices (vs ! j)) \<le> 1 \<Longrightarrow>
   ptp_count (devices (effect (ReconfigVM_Task r add_spec) vs ! j)) \<le> 1"
  by (auto simp add: devices_effect_add ptp_count_has_ptp ptp_count_def)

lemma ptp_count_effect_remove:
  "ptp_count (devices (vs ! j)) \<le> 1 \<Longrightarrow>
   ptp_count (devices (effect (ReconfigVM_Task r (remove_spec d)) vs ! j)) \<le> 1"
  using ptp_count_filter [of "\<lambda>x. key x \<noteq> key d" "devices (vs ! j)"]
  by (simp add: devices_effect_remove)

lemma ptp_count_effect_power [simp]:
  "ptp_count (devices (effect (PowerOffVM_Task r) vs ! j)) = ptp_count (devices (vs ! j))"
  "ptp_count (devices (effect (PowerOnVM_Task r) vs ! j)) = ptp_count (devices (vs ! j))"
  by simp_all

lemma process_vm_not_found:
  "get_vm_by_name n w = None \<Longrightarrow>
   process_vm n a w =
     (Some False, print ''  ERROR: VM '{vm_name}' not found'' [StrV n]
                    (print ''Processing VM: {vm_name}'' [StrV n] w))"
  by (simp add: process_vm_def Let_def)

lemma process_read_frame:
  "fst (process_read r w) = Some True"
  "calls (trace (snd (process_read r w))) = calls (trace w)"
  "submitted (snd (process_read r w)) = submitted w"
  "inventory (snd (process_read r w)) = inventory w"
  "platform (snd (process_read r w)) = platform w"
  by (simp_all add: process_read_def Let_def split: option.split)

lemma process_vm_ptp_count:
  assumes one: "ptp_count (devices (inventory w ! j)) \<le> 1"
  shows "ptp_count (devices (inventory (snd (process_vm n a w)) ! j)) \<le> 1"
proof (cases "get_vm_by_name n w")
  case None
  with one show ?thesis by (simp add: process_vm_not_found)
next
  case (Some r)
  let ?w0 = "print ''Processing VM: {vm_name}'' [StrV n] w"
  consider (rd) "a = ''read''" | (en) "a = ''enable''" | (dis) "a = ''disable''"
    | (other) "a \<noteq> ''read''" "a \<noteq> ''enable''" "a \<noteq> ''disable''" by blast
  then show ?thesis
  proof cases
    case rd
    with one Some show ?thesis by (simp add: process_vm_found process_read_frame)
  next
    case other
    with one Some show ?thesis by (simp add: process_vm_found)
  next
    case en
    show ?thesis
    proof (cases "has_ptp_device r w")
      case True
      with one Some en show ?thesis by (simp add: process_vm_found process_enable_skip)
    next
      case False
      then have no: "\<not> has_ptp (devices (inventory w ! r))" by (simp add: has_ptp_device_def)
      have no': "\<not> has_ptp (devices (effect (PowerOffVM_Task r) (inventory w) ! r))"
        using no by simp
      note a1 = ptp_count_effect_add [OF no one]
      have a2: "ptp_count (devices (effect (ReconfigVM_Task r add_spec)
                  (effect (PowerOffVM_Task r) (inventory w)) ! j)) \<le> 1"
        using ptp_count_effect_add [OF no'] one by simp
      from afterD(3) [OF process_vm_enable_summary(2) [OF Some False]] one a1 a2
      show ?thesis unfolding en by (simp split: if_splits)
    qed
  next
    case dis
    show ?thesis
    proof (cases "get_ptp_device r w")
      case None
      then have "\<not> has_ptp_device r w"
        by (simp add: has_ptp_device_def get_ptp_device_def get_ptp_has_ptp)
      with one Some dis show ?thesis by (simp add: process_vm_found process_disable_skip)
    next
      case (Some d)
      note a1 = ptp_count_effect_remove [OF one, of r d]
      have a2: "ptp_count (devices (effect (ReconfigVM_Task r (remove_spec d))
                  (effect (PowerOffVM_Task r) (inventory w)) ! j)) \<le> 1"
        using ptp_count_effect_remove [of "effect (PowerOffVM_Task r) (inventory w)" j r d] one
        by simp
      from afterD(3) [OF process_vm_disable_summary(2) [OF \<open>get_vm_by_name n w = Some r\<close> Some]]
        one a1 a2
      show ?thesis unfolding dis by (simp split: if_splits)
    qed
  qed
qed

text \<open>C7: whatever the action (\<open>read\<close>, \<open>enable\<close>, \<open>disable\<close> or any other
  string) and whatever the server answers, a VM with at most one precision clock before
  \<open>process_vm\<close> has at most one after it; and \<open>enable\<close> submits a request only
  when the VM was found and \<open>has_ptp_device\<close> said that no precision clock is
  present. A task is followed up to the return of \<open>wait_for_task\<close>: what a task
  still running at a timeout does later is outside the model.\<close>

theorem at_most_one_precision_clock:
  "(ptp_count (devices (inventory w ! j)) \<le> 1 \<longrightarrow>
      ptp_count (devices (inventory (snd (process_vm n a w)) ! j)) \<le> 1) \<and>
   (calls (trace (snd (process_vm n ''enable'' w))) \<noteq> calls (trace w) \<longrightarrow>
      (\<exists>r. get_vm_by_name n w = Some r \<and> \<not> has_ptp_device r w))"
proof (intro conjI impI)
  assume "ptp_count (devices (inventory w ! j)) \<le> 1"
  then show "ptp_count (devices (inventory (snd (process_vm n a w)) ! j)) \<le> 1"
    by (rule process_vm_ptp_count)
next
  assume c: "calls (trace (snd (process_vm n ''enable'' w))) \<noteq> calls (trace w)"
  show "\<exists>r. get_vm_by_name n w = Some r \<and> \<not> has_ptp_device r w"
  proof (cases "get_vm_by_name n w")
    case None
    with c show ?thesis by (simp add: process_vm_not_found)
  next
    case (Some r)
    with c show ?thesis
      by (cases "has_ptp_device r w") (simp_all add: process_vm_found process_enable_skip)
  qed
qed

theorem at_most_one_precision_clock_witness:
  "ptp_count (devices (inventory (world_of (\<lambda>n. Returns (Finishes 1 Succeeds))) ! 0)) \<le> 1 \<and>
   ptp_count (devices (inventory (snd (process_vm ''A'' ''enable''
      (world_of (\<lambda>n. Returns (Finishes 1 Succeeds))))) ! 0)) \<le> 1 \<and>
   devices (inventory (snd (process_vm ''A'' ''enable''
      (world_of (\<lambda>n. Returns (Finishes 1 Succeeds))))) ! 0) =
     [VirtualDevice 2000 ''Hard disk 1'', VirtualPrecisionClock 2001 []] \<and>
   calls (trace (snd (process_vm ''A'' ''enable''
      (world_of (\<lambda>n. Returns (Finishes 1 Succeeds)))))) \<noteq> [] \<and>
   get_vm_by_name ''A'' (world_of (\<lambda>n. Returns (Finishes 1 Succeeds))) = Some 0 \<and>
   \<not> has_ptp_device 0 (world_of (\<lambda>n. Returns (Finishes 1 Succeeds)))"
proof -
  let ?w = "world_of (\<lambda>n. Returns (Finishes 1 Succeeds))"
  have a: "get_vm_by_name ''A'' ?w = Some 0" and e: "\<not> has_ptp_device 0 ?w"
    and one: "ptp_count (devices (inventory ?w ! 0)) \<le> 1"
    by (simp_all add: world_of_simps vm_simps ptp_count_def)
  have d: "devices (inventory (snd (process_vm ''A'' ''enable'' ?w)) ! 0) =
     [VirtualDevice 2000 ''Hard disk 1'', VirtualPrecisionClock 2001 []]"
    using afterD(3) [OF process_vm_enable_summary(2) [OF a e]]
    by (simp add: world_of_simps vm_simps completes_simps devices_effect_add fresh_key_def)
  have c: "calls (trace (snd (process_vm ''A'' ''enable'' ?w))) \<noteq> []"
    using afterD_calls [OF process_vm_enable_summary(2) [OF a e]]
    by (simp add: world_of_simps vm_simps completes_simps)
  from at_most_one_precision_clock [of ?w 0 "''A''" "''enable''"] one a e c d
  show ?thesis by simp
qed

section \<open>Waiting for a task\<close>

lemma busy_wait_unfold:
  "busy_wait t i w =
     (if state_at (behaviour t) i \<noteq> State_success \<and> state_at (behaviour t) i \<noteq> State_error
      then busy_wait t (Suc i) (snd (read_state t i w))
      else Some (state_at (behaviour t) i, snd (read_state t i w)))"
proof -
  obtain s w1 where rs: "read_state t i w = (s, w1)" by (cases "read_state t i w")
  have s: "s = state_at (behaviour t) i" using rs read_state_fields(1)[of t i w] by simp
  show ?thesis by (subst busy_wait.simps) (simp add: rs flip: s)
qed

lemma busy_wait_Some:
  assumes "busy_wait t i w = Some y"
  shows "platform (snd y) = platform w \<and> submitted (snd y) = submitted w \<and>
         calls (trace (snd y)) = calls (trace w) \<and>
         (fst y = State_success \<or> fst y = State_error) \<and>
         behaviour t \<noteq> Hangs \<and>
         (inventory (snd y) = inventory w \<or>
          inventory (snd y) = effect (request_of t) (inventory w))"
proof (induction rule: busy_wait.raw_induct [OF _ assms])
  case (1 busy_wait t i w y)
  obtain s w1 where rs: "read_state t i w = (s, w1)" by (cases "read_state t i w")
  have s: "s = state_at (behaviour t) i" using rs read_state_fields(1)[of t i w] by simp
  have w1: "w1 = snd (read_state t i w)" using rs by simp
  show ?case
  proof (cases "s \<noteq> State_success \<and> s \<noteq> State_error")
    case True
    then have nf: "behaviour t \<noteq> Finishes i Succeeds" using s by auto
    from True 1(2) rs have "busy_wait t (Suc i) w1 = Some y" by simp
    from 1(1) [OF this] nf show ?thesis by (simp add: w1)
  next
    case False
    with 1(2) rs have y: "y = (s, w1)" by auto
    from False s have "behaviour t \<noteq> Hangs" by auto
    with False show ?thesis by (auto simp add: y w1)
  qed
qed

lemma busy_wait_Finishes:
  "behaviour t = Finishes n e \<Longrightarrow> i \<le> n \<Longrightarrow> \<exists>w'. busy_wait t i w = Some (state_at (behaviour t) n, w')"
proof (induction "n - i" arbitrary: i w)
  case 0
  then have "i = n" by simp
  with 0(2) show ?case
    by (subst busy_wait_unfold) (cases e; simp)
next
  case (Suc k)
  then have lt: "i < n" and k: "k = n - Suc i" by simp_all
  from Suc(1) [OF k Suc(3)] lt
  obtain w' where "busy_wait t (Suc i) (snd (read_state t i w)) = Some (state_at (behaviour t) n, w')"
    by auto
  with lt Suc(3) show ?case
    by (subst busy_wait_unfold) simp
qed








lemma spins_simps [simp]:
  "spins [Poll s] = False"
  "spins (Poll s # Sleep d # es) = spins es"
  "spins (Poll s # Print f vs # es) = spins es"
  by simp_all

lemma wait_loop_sleeps:
  "\<exists>tr. trace (snd (wait_loop t timeout st i w)) = trace w @ tr \<and> \<not> spins tr \<and>
         (\<forall>d. Sleep d \<in> set tr \<longrightarrow> d = 1)"
proof (induction t timeout st i w rule: wait_loop.induct)
  case (1 t timeout st i w)
  note IH = 1 [OF prod.collapse]
  let ?s = "state_at (behaviour t) i"
  show ?case
  proof (cases "?s \<noteq> State_success \<and> ?s \<noteq> State_error")
    case False
    then show ?thesis
      by (subst wait_loop_unfold) (auto simp add: Let_def)
  next
    case run: True
    show ?thesis
    proof (cases "clock w - st > timeout")
      case True
      with run show ?thesis
        by (subst wait_loop_unfold) (simp add: Let_def)
    next
      case False
      with run IH obtain tr where
        tr: "trace (snd (wait_loop t timeout st (Suc i) (sleep 1 (snd (read_state t i w))))) =
               trace w @ Poll ?s # Sleep 1 # tr"
        and ns: "\<not> spins tr" and sl: "\<forall>d. Sleep d \<in> set tr \<longrightarrow> d = 1"
        by auto
      have "trace (snd (wait_loop t timeout st i w)) = trace w @ (Poll ?s # Sleep 1 # tr)"
        using run False tr by (subst wait_loop_unfold) (simp add: Let_def)
      moreover have "\<not> spins (Poll ?s # Sleep 1 # tr)" using ns by simp
      moreover have "\<forall>d. Sleep d \<in> set (Poll ?s # Sleep 1 # tr) \<longrightarrow> d = 1" using sl by auto
      ultimately show ?thesis by blast
    qed
  qed
qed

lemma wait_for_task_sleeps:
  "\<exists>tr. trace (snd (wait_for_task t timeout w)) = trace w @ tr \<and> \<not> spins tr \<and>
         (\<forall>d. Sleep d \<in> set tr \<longrightarrow> d = 1)"
  unfolding wait_for_task_def by (rule wait_loop_sleeps)

text \<open>C5: \<open>wait_for_task\<close> of add\_ptp\_to\_vm.py sleeps one second after every poll
  that finds the task unfinished (\<open>wait_for_task_sleeps\<close> above). The loop of
  \<open>set_vm_notification_settings\<close> does not: for a task that is running at its first
  two polls, the trace is the request followed by polls only, and it spins.\<close>

theorem notification_wait_spins:
  "\<exists>w'. set_vm_notification_settings 0 None (Some True)
           (world_of (\<lambda>n. Returns (Finishes 2 Succeeds))) = Some (True, w') \<and>
         trace w' =
           [Call (ReconfigVM_Task 0 (notification_spec None (Some True))),
            Poll State_running, Poll State_running, Poll State_success, Poll State_success] \<and>
         spins (trace w')"
  by (simp add: set_vm_notification_settings_def submit_def Let_def world_of_simps
        busy_wait_unfold numeral_2_eq_2)

section \<open>Writing the notification settings\<close>

lemma busy_wait_inventory:
  assumes "busy_wait t i w = Some y"
  shows "(\<forall>n e. behaviour t = Finishes n e \<longrightarrow> i \<le> n) \<longrightarrow>
         inventory (snd y) =
           (if fst y = State_success then effect (request_of t) (inventory w) else inventory w)"
proof (induction rule: busy_wait.raw_induct [OF _ assms])
  case (1 busy_wait t i w y)
  obtain s w1 where rs: "read_state t i w = (s, w1)" by (cases "read_state t i w")
  have s: "s = state_at (behaviour t) i" using rs read_state_fields(1)[of t i w] by simp
  have w1: "w1 = snd (read_state t i w)" using rs by simp
  show ?case
  proof (intro impI)
    assume le: "\<forall>n e. behaviour t = Finishes n e \<longrightarrow> i \<le> n"
    show "inventory (snd y) =
           (if fst y = State_success then effect (request_of t) (inventory w) else inventory w)"
    proof (cases "s \<noteq> State_success \<and> s \<noteq> State_error")
      case True
      then have nf: "behaviour t \<noteq> Finishes i Succeeds" using s by auto
      have le': "\<forall>n e. behaviour t = Finishes n e \<longrightarrow> Suc i \<le> n"
      proof (intro allI impI)
        fix n e assume b: "behaviour t = Finishes n e"
        with le have "i \<le> n" by simp
        moreover have "i \<noteq> n" using True s b by (auto split: task_end.splits)
        ultimately show "Suc i \<le> n" by simp
      qed
      from True 1(2) rs have "busy_wait t (Suc i) w1 = Some y" by simp
      from 1(1) [OF this] le' nf show ?thesis by (simp add: w1)
    next
      case False
      with 1(2) rs have y: "y = (s, w1)" by auto
      show ?thesis
      proof (cases "behaviour t")
        case Hangs
        with False s show ?thesis by simp
      next
        case (Finishes n e)
        with le have "i \<le> n" by simp
        moreover have "\<not> i < n" using False s Finishes by auto
        ultimately have "i = n" by simp
        with Finishes s show ?thesis by (cases e) (simp_all add: y w1)
      qed
    qed
  qed
qed

lemma notification_spec_simps:
  "notification_spec None (Some e) =
     \<lparr>deviceChange = [], spec_vmOpNotificationToAppEnabled = Some e,
      spec_vmOpNotificationTimeout = None\<rparr>"
  "notification_spec (Some t) None =
     \<lparr>deviceChange = [], spec_vmOpNotificationToAppEnabled = None,
      spec_vmOpNotificationTimeout = Some t\<rparr>"
  "notification_spec (Some t) (Some e) =
     \<lparr>deviceChange = [], spec_vmOpNotificationToAppEnabled = Some e,
      spec_vmOpNotificationTimeout = Some t\<rparr>"
  "notification_spec None None =
     \<lparr>deviceChange = [], spec_vmOpNotificationToAppEnabled = None,
      spec_vmOpNotificationTimeout = None\<rparr>"
  by (simp_all add: notification_spec_def ConfigSpec_def)

lemma settings_effect:
  "vmOpNotificationTimeout (effect (ReconfigVM_Task r c) vs ! j) =
     (if r = j \<and> r < length vs
      then (case spec_vmOpNotificationTimeout c of
              None \<Rightarrow> vmOpNotificationTimeout (vs ! j) | Some t \<Rightarrow> Some t)
      else vmOpNotificationTimeout (vs ! j))"
  "vmOpNotificationToAppEnabled (effect (ReconfigVM_Task r c) vs ! j) =
     (if r = j \<and> r < length vs
      then (case spec_vmOpNotificationToAppEnabled c of
              None \<Rightarrow> vmOpNotificationToAppEnabled (vs ! j) | Some b \<Rightarrow> Some b)
      else vmOpNotificationToAppEnabled (vs ! j))"
  by (auto simp add: effect.simps nth_list_update_total apply_spec_def)

lemma set_vm_notification_settings_Some:
  assumes "set_vm_notification_settings r timeout enabled w = Some (ok, w')"
  shows "platform w' = platform w" "submitted w' = Suc (submitted w)"
    "calls (trace w') = calls (trace w) @ [ReconfigVM_Task r (notification_spec timeout enabled)]"
    "inventory w' =
       (if ok then effect (ReconfigVM_Task r (notification_spec timeout enabled)) (inventory w)
        else inventory w)"
    "ok = (\<exists>n. platform w (submitted w) = Returns (Finishes n Succeeds))"
proof -
  let ?q = "ReconfigVM_Task r (notification_spec timeout enabled)"
  obtain x w1 where sub: "submit ?q w = (x, w1)" by (cases "submit ?q w")
  then have w1: "w1 = snd (submit ?q w)" and x: "x = fst (submit ?q w)" by simp_all
  have "platform w' = platform w \<and> submitted w' = Suc (submitted w) \<and>
    calls (trace w') = calls (trace w) @ [?q] \<and>
    inventory w' = (if ok then effect ?q (inventory w) else inventory w) \<and>
    ok = (\<exists>n. platform w (submitted w) = Returns (Finishes n Succeeds))"
  proof (cases "platform w (submitted w)")
    case (Raises e)
    with assms show ?thesis
      by (auto simp add: set_vm_notification_settings_def submit_def Let_def)
  next
    case (Returns b)
    let ?t = "\<lparr>behaviour = b, request_of = ?q\<rparr>"
    from Returns have xt: "x = Inr ?t" by (simp add: x)
    from assms sub xt obtain s w2 where bw: "busy_wait ?t 0 w1 = Some (s, w2)"
      by (auto simp add: set_vm_notification_settings_def split: option.splits)
    from assms sub xt bw have ok: "ok = (s = State_success)"
      and w': "w' = (if s = State_success then emit (Poll s) w2
                    else print ''Error: Task failed with error: {task.info.error.msg}''
                           [StrV (error_of b)] (emit (Poll s) w2))"
      by (auto simp add: set_vm_notification_settings_def Let_def split: if_splits)
    note f = busy_wait_Some [OF bw]
    have i: "inventory w2 = (if s = State_success then effect ?q (inventory w) else inventory w)"
      using busy_wait_inventory [OF bw] by (simp add: w1)
    have "s = State_success \<longleftrightarrow> (\<exists>n. b = Finishes n Succeeds)"
    proof (cases b)
      case Hangs
      with f show ?thesis by simp
    next
      case (Finishes n e)
      from busy_wait_Finishes [of ?t n e 0 w1] Finishes bw
      have "s = state_at b n" by auto
      with Finishes show ?thesis by (cases e) simp_all
    qed
    with f i ok w' Returns show ?thesis by (auto simp add: w1)
  qed
  then show "platform w' = platform w" "submitted w' = Suc (submitted w)"
    "calls (trace w') = calls (trace w) @ [?q]"
    "inventory w' = (if ok then effect ?q (inventory w) else inventory w)"
    "ok = (\<exists>n. platform w (submitted w) = Returns (Finishes n Succeeds))"
    by simp_all
qed

lemma set_vm_notification_settings_returns:
  assumes "platform w (submitted w) \<noteq> Returns Hangs"
  shows "set_vm_notification_settings r timeout enabled w \<noteq> None"
proof (cases "platform w (submitted w)")
  case (Raises e)
  then show ?thesis
    by (simp add: set_vm_notification_settings_def submit_def Let_def)
next
  case (Returns b)
  with assms obtain n e where b: "b = Finishes n e" by (cases b) auto
  let ?q = "ReconfigVM_Task r (notification_spec timeout enabled)"
  let ?t = "\<lparr>behaviour = b, request_of = ?q\<rparr>"
  from busy_wait_Finishes [of ?t n e 0 "snd (submit ?q w)"] b
  obtain w2 where "busy_wait ?t 0 (snd (submit ?q w)) = Some (state_at b n, w2)" by auto
  with Returns show ?thesis
    by (auto simp add: set_vm_notification_settings_def submit_def Let_def)
qed

text \<open>C6: \<open>set_vm_notification_settings\<close> returns whenever the server raises or the
  task finishes. Called with \<open>enabled\<close> and no timeout, the one request it submits
  carries the enabled field and no timeout field, and whatever the outcome every VM's
  timeout is what it was; when the write succeeds the VM's enabled field is the value
  given. Symmetrically, called with a timeout and no \<open>enabled\<close>, the request carries
  the timeout only and every VM's enabled field is what it was.\<close>

theorem notification_write_is_partial_update:
  "(platform w (submitted w) \<noteq> Returns Hangs \<longrightarrow>
      set_vm_notification_settings r timeout enabled w \<noteq> None) \<and>
   (\<forall>ok w'. set_vm_notification_settings r None (Some e) w = Some (ok, w') \<longrightarrow>
      calls (trace w') = calls (trace w) @
        [ReconfigVM_Task r \<lparr>deviceChange = [], spec_vmOpNotificationToAppEnabled = Some e,
                            spec_vmOpNotificationTimeout = None\<rparr>] \<and>
      (\<forall>j. vmOpNotificationTimeout (inventory w' ! j) =
            vmOpNotificationTimeout (inventory w ! j)) \<and>
      (ok \<and> r < length (inventory w) \<longrightarrow>
         vmOpNotificationToAppEnabled (inventory w' ! r) = Some e)) \<and>
   (\<forall>ok w'. set_vm_notification_settings r (Some t) None w = Some (ok, w') \<longrightarrow>
      calls (trace w') = calls (trace w) @
        [ReconfigVM_Task r \<lparr>deviceChange = [], spec_vmOpNotificationToAppEnabled = None,
                            spec_vmOpNotificationTimeout = Some t\<rparr>] \<and>
      (\<forall>j. vmOpNotificationToAppEnabled (inventory w' ! j) =
            vmOpNotificationToAppEnabled (inventory w ! j)) \<and>
      (ok \<and> r < length (inventory w) \<longrightarrow>
         vmOpNotificationTimeout (inventory w' ! r) = Some t))"
proof (intro conjI allI impI)
  assume "platform w (submitted w) \<noteq> Returns Hangs"
  then show "set_vm_notification_settings r timeout enabled w \<noteq> None"
    by (rule set_vm_notification_settings_returns)
next
  fix ok w'
  assume a: "set_vm_notification_settings r None (Some e) w = Some (ok, w')"
  note s = set_vm_notification_settings_Some [OF a]
  show "calls (trace w') = calls (trace w) @
        [ReconfigVM_Task r \<lparr>deviceChange = [], spec_vmOpNotificationToAppEnabled = Some e,
                            spec_vmOpNotificationTimeout = None\<rparr>]"
    using s(3) by (simp add: notification_spec_simps)
  show "vmOpNotificationTimeout (inventory w' ! j) = vmOpNotificationTimeout (inventory w ! j)" for j
    using s(4) by (simp add: notification_spec_simps settings_effect)
  show "vmOpNotificationToAppEnabled (inventory w' ! r) = Some e"
    if "ok \<and> r < length (inventory w)"
    using s(4) that by (simp add: notification_spec_simps settings_effect)
next
  fix ok w'
  assume a: "set_vm_notification_settings r (Some t) None w = Some (ok, w')"
  note s = set_vm_notification_settings_Some [OF a]
  show "calls (trace w') = calls (trace w) @
        [ReconfigVM_Task r \<lparr>deviceChange = [], spec_vmOpNotificationToAppEnabled = None,
                            spec_vmOpNotificationTimeout = Some t\<rparr>]"
    using s(3) by (simp add: notification_spec_simps)
  show "vmOpNotificationToAppEnabled (inventory w' ! j) = vmOpNotificationToAppEnabled (inventory w ! j)" for j
    using s(4) by (simp add: notification_spec_simps settings_effect)
  show "vmOpNotificationTimeout (inventory w' ! r) = Some t"
    if "ok \<and> r < length (inventory w)"
    using s(4) that by (simp add: notification_spec_simps settings_effect)
qed

theorem notification_write_is_partial_update_witness:
  "\<exists>w'. set_vm_notification_settings 0 None (Some True)
           (world_of (\<lambda>n. Returns (Finishes 2 Succeeds))) = Some (True, w') \<and>
         calls (trace w') =
           [ReconfigVM_Task 0 \<lparr>deviceChange = [], spec_vmOpNotificationToAppEnabled = Some True,
                                spec_vmOpNotificationTimeout = None\<rparr>] \<and>
         vmOpNotificationTimeout (inventory w' ! 0) = Some 600 \<and>
         vmOpNotificationToAppEnabled (inventory w' ! 0) = Some True"
proof -
  let ?w = "world_of (\<lambda>n. Returns (Finishes 2 Succeeds))"
  note t = notification_write_is_partial_update
    [where w="?w" and r=0 and timeout=None and enabled="Some True" and e=True]
  have "platform ?w (submitted ?w) \<noteq> Returns Hangs" by (simp add: world_of_simps)
  with t have "set_vm_notification_settings 0 None (Some True) ?w \<noteq> None" by blast
  then obtain ok w' where s: "set_vm_notification_settings 0 None (Some True) ?w = Some (ok, w')"
    by auto
  from set_vm_notification_settings_Some(5) [OF s] have ok: "ok" by (simp add: world_of_simps)
  from t s have "calls (trace w') = calls (trace ?w) @
        [ReconfigVM_Task 0 \<lparr>deviceChange = [], spec_vmOpNotificationToAppEnabled = Some True,
                            spec_vmOpNotificationTimeout = None\<rparr>] \<and>
      (\<forall>j. vmOpNotificationTimeout (inventory w' ! j) =
            vmOpNotificationTimeout (inventory ?w ! j)) \<and>
      (ok \<and> 0 < length (inventory ?w) \<longrightarrow>
         vmOpNotificationToAppEnabled (inventory w' ! 0) = Some True)"
    by blast
  with ok have "calls (trace w') =
           [ReconfigVM_Task 0 \<lparr>deviceChange = [], spec_vmOpNotificationToAppEnabled = Some True,
                                spec_vmOpNotificationTimeout = None\<rparr>] \<and>
         vmOpNotificationTimeout (inventory w' ! 0) = Some 600 \<and>
         vmOpNotificationToAppEnabled (inventory w' ! 0) = Some True"
    by (simp add: world_of_simps vm_simps)
  with s ok show ?thesis by (intro exI [of _ w']) simp
qed

section \<open>The batch\<close>

lemma map_name_effect [simp]: "map name (effect q vs) = map name vs"
proof (cases q)
  case (PowerOffVM_Task r)
  then show ?thesis
    by (cases "r < length vs") (simp_all add: effect.simps map_update list_update_beyond list_update_same_conv)
next
  case (PowerOnVM_Task r)
  then show ?thesis
    by (cases "r < length vs") (simp_all add: effect.simps map_update list_update_beyond list_update_same_conv)
next
  case (ReconfigVM_Task r c)
  then show ?thesis
    by (cases "r < length vs")
       (simp_all add: effect.simps map_update list_update_beyond list_update_same_conv apply_spec_def)
qed

lemma find_vm_names: "map name vs = map name vs' \<Longrightarrow> find_vm n vs = find_vm n vs'"
proof (induction vs arbitrary: vs')
  case Nil
  then show ?case by simp
next
  case (Cons v vs)
  then obtain v' vs'' where "vs' = v' # vs''" by (cases vs') auto
  with Cons show ?case by auto
qed














lemma batch_args_simps [simp]:
  "arg_read (batch_args rd en dis t) = rd" "arg_enable (batch_args rd en dis t) = en"
  "arg_disable (batch_args rd en dis t) = dis" "arg_timeout (batch_args rd en dis t) = t"
  "arg_vms (batch_args rd en dis t) = [''A'', ''B'', ''C'']"
  "arg_no_confirm (batch_args rd en dis t) = True" "arg_dry_run (batch_args rd en dis t) = False"
  by (simp_all add: batch_args_def)




end
